theory Spec2Isabelle
  imports Complex_Main "HOL-Library.Word"
begin

section \<open>Colorectal Histology notebook: the shallow embedding\<close>

text \<open>
  The program is the notebook \<^verbatim>\<open>resources/deep-learning/Colorectal Histology.ipynb\<close>,
  a linear script of code cells. Its own control logic is embedded cell by cell. Calls
  into TensorFlow/Keras, NumPy and Matplotlib are not part of the repository: a call whose
  result the notebook's logic depends on is either a parameter of the embedding
  (\<open>predict\<close>, the optimizer) or a small model of its documented behaviour, marked as such.
  Python exceptions are values of \<open>py_error\<close>; a cell that may raise returns
  \<open>py_error + 'a\<close>.
\<close>

datatype py_error =
    IndexError          \<comment> \<open>a sequence subscript out of range\<close>
  | KeyError            \<comment> \<open>a missing dictionary key\<close>
  | TypeError           \<comment> \<open>subscripting \<open>None\<close>\<close>
  | ArgmaxOfEmpty       \<comment> \<open>\<open>ValueError\<close> of \<open>np.argmax\<close> on an empty axis\<close>
  | SubplotOutOfRange   \<comment> \<open>\<open>ValueError\<close> of \<open>plt.subplot\<close>: num must be 1 <= num <= rows*cols\<close>
  | ZeroDivisionError   \<comment> \<open>true division by the integer zero\<close>
  | OverflowError       \<comment> \<open>integer division result too large for a float\<close>

subsection \<open>Cell 3: the dataset indexer\<close>

text \<open>
  \<open>data_dir.glob('*')\<close> yields the immediate entries of the root directory, regular
  files and subdirectories alike, in the order of the file system. An entry is its name
  and its kind.
\<close>

datatype entry_kind = RegularFile | Directory

type_synonym listing = "(string \<times> entry_kind) list"

text \<open>
  \<open>CLASS_NAMES = np.array([item.name for item in data_dir.glob('*')
  if item.name != "LICENSE.txt"])\<close>
\<close>

definition CLASS_NAMES :: "listing \<Rightarrow> string list" where
  "CLASS_NAMES data_dir = [name. (name, kind) \<leftarrow> data_dir, name \<noteq> ''LICENSE.txt'']"

text \<open>
  The specification's wording, for comparison with \<open>CLASS_NAMES\<close>: the names of the
  immediate subdirectories of the root.
\<close>

definition subdirectories :: "listing \<Rightarrow> string list" where
  "subdirectories data_dir = [name. (name, kind) \<leftarrow> data_dir, kind = Directory]"

subsection \<open>Library functions the evaluation cell calls\<close>

text \<open>
  \<open>xs[n]\<close> for a non-negative \<open>n\<close>: the element, or \<open>IndexError\<close>.
\<close>

definition getitem :: "'a list \<Rightarrow> nat \<Rightarrow> py_error + 'a" where
  "getitem xs n = (if n < length xs then Inr (xs ! n) else Inl IndexError)"

text \<open>
  \<open>np.argmax\<close> along the last axis: the index of the first greatest entry of a row;
  on a row of length 0 it raises. The entries are compared by a linear order
  (no NaN is modelled).
\<close>

fun argmax_from :: "'a::linorder list \<Rightarrow> nat \<Rightarrow> 'a \<Rightarrow> nat \<Rightarrow> nat" where
  "argmax_from [] i best best_i = best_i"
| "argmax_from (y # ys) i best best_i =
     (if best < y then argmax_from ys (Suc i) y i else argmax_from ys (Suc i) best best_i)"

definition argmax :: "'a::linorder list \<Rightarrow> py_error + nat" where
  "argmax row = (case row of [] \<Rightarrow> Inl ArgmaxOfEmpty | x # xs \<Rightarrow> Inr (argmax_from xs 1 x 0))"

text \<open>\<open>np.argmax(a, axis=-1)\<close> on a two-dimensional array: one index per row.\<close>

fun argmax_rows :: "'a::linorder list list \<Rightarrow> py_error + nat list" where
  "argmax_rows [] = Inr []"
| "argmax_rows (row # rows) =
     (case argmax row of
        Inl e \<Rightarrow> Inl e
      | Inr i \<Rightarrow> (case argmax_rows rows of Inl e \<Rightarrow> Inl e | Inr is \<Rightarrow> Inr (i # is)))"

text \<open>\<open>class_names[predicted_id]\<close>: indexing an array by an array of indices.\<close>

fun take_indices :: "'a list \<Rightarrow> nat list \<Rightarrow> py_error + 'a list" where
  "take_indices xs [] = Inr []"
| "take_indices xs (i # is) =
     (case getitem xs i of
        Inl e \<Rightarrow> Inl e
      | Inr x \<Rightarrow> (case take_indices xs is of Inl e \<Rightarrow> Inl e | Inr ys \<Rightarrow> Inr (x # ys)))"

text \<open>
  \<open>str.title()\<close> on ASCII text: the first letter of every run of letters in upper case,
  the other letters of the run in lower case, every other character unchanged.
  Bytes outside ASCII are treated as uncased.
\<close>

definition is_lower :: "char \<Rightarrow> bool" where
  "is_lower c = (97 \<le> (of_char c :: nat) \<and> (of_char c :: nat) \<le> 122)"

definition is_upper :: "char \<Rightarrow> bool" where
  "is_upper c = (65 \<le> (of_char c :: nat) \<and> (of_char c :: nat) \<le> 90)"

definition to_upper :: "char \<Rightarrow> char" where
  "to_upper c = (if is_lower c then char_of ((of_char c :: nat) - 32) else c)"

definition to_lower :: "char \<Rightarrow> char" where
  "to_lower c = (if is_upper c then char_of ((of_char c :: nat) + 32) else c)"

fun title_from :: "bool \<Rightarrow> string \<Rightarrow> string" where
  "title_from previous_is_cased [] = []"
| "title_from previous_is_cased (c # cs) =
     (if is_lower c then (if previous_is_cased then c else to_upper c) # title_from True cs
      else if is_upper c then (if previous_is_cased then to_lower c else c) # title_from True cs
      else c # title_from False cs)"

definition str_title :: "string \<Rightarrow> string" where
  "str_title s = title_from False s"

text \<open>\<open>str(n)\<close> of a non-negative integer: its decimal digits.\<close>

fun str_nat :: "nat \<Rightarrow> string" where
  "str_nat n =
     (if n < 10 then [char_of (48 + n)] else str_nat (n div 10) @ [char_of (48 + n mod 10)])"

declare str_nat.simps [simp del]

text \<open>
  \<open>plt.subplot(nrows, ncols, num)\<close> selects cell \<open>num\<close> of the grid, counted from 1;
  a number outside \<open>1 .. nrows*ncols\<close> raises \<open>ValueError\<close>.
\<close>

definition subplot :: "nat \<Rightarrow> nat \<Rightarrow> nat \<Rightarrow> py_error + nat" where
  "subplot nrows ncols num =
     (if 1 \<le> num \<and> num \<le> nrows * ncols then Inr num else Inl SubplotOutOfRange)"

subsection \<open>Cell 7: the image loaders\<close>

definition BATCH_SIZE :: nat where
  "BATCH_SIZE = 32"

definition IMG_HEIGHT :: nat where
  "IMG_HEIGHT = 224"

definition IMG_WIDTH :: nat where
  "IMG_WIDTH = 224"

text \<open>
  \<open>ImageDataGenerator(rescale=1./255, validation_split=0.2)\<close>. The factors are exact
  rationals here: the rounding of \<open>float32\<close> arithmetic is not modelled.
\<close>

record image_data_generator =
  rescale :: rat
  validation_split :: rat

definition image_generator :: image_data_generator where
  "image_generator = \<lparr>rescale = 1 / 255, validation_split = 2 / 10\<rparr>"

text \<open>The keyword arguments of \<open>flow_from_directory\<close>.\<close>

record flow_args =
  seed :: nat
  directory :: string
  batch_size :: nat
  shuffle :: bool
  target_size :: "nat \<times> nat"
  classes :: "string list"
  subset_arg :: string

text \<open>
  The two calls of cell 7; cell 23 repeats the second call with the same arguments.
  Both pass \<open>classes = list(CLASS_NAMES)\<close>.
\<close>

definition train_data_gen_args :: "listing \<Rightarrow> flow_args" where
  "train_data_gen_args data_dir =
     \<lparr>seed = 2020, directory = ''Kather_texture_2016_image_tiles_5000'',
      batch_size = BATCH_SIZE, shuffle = True, target_size = (IMG_HEIGHT, IMG_WIDTH),
      classes = CLASS_NAMES data_dir, subset_arg = ''training''\<rparr>"

definition val_data_gen_args :: "listing \<Rightarrow> flow_args" where
  "val_data_gen_args data_dir =
     \<lparr>seed = 2020, directory = ''Kather_texture_2016_image_tiles_5000'',
      batch_size = BATCH_SIZE, shuffle = False, target_size = (IMG_HEIGHT, IMG_WIDTH),
      classes = CLASS_NAMES data_dir, subset_arg = ''validation''\<rparr>"

subsection \<open>The directory iterator behind \<open>flow_from_directory\<close>\<close>

text \<open>
  Modelled from the spec: the iterator that \<open>flow_from_directory\<close> returns is code of
  Keras, which the repository only calls. What follows is the contract of the split
  loader in the specification (sections 3 and 4.2): the position of a class name in the
  class list is its one-hot index; every image is decoded, resized to the target size and
  rescaled from the 8-bit range; one pass groups the samples of the subset into batches
  of \<open>batch_size\<close>, the last of which may be shorter.
\<close>

definition class_indices :: "flow_args \<Rightarrow> (string \<times> nat) list" where
  "class_indices args = zip (classes args) [0 ..< length (classes args)]"

definition num_classes :: "flow_args \<Rightarrow> nat" where
  "num_classes args = length (classes args)"

text \<open>
  Modelled from the spec: the samples under the root, each file of the directory of a
  listed class paired with the index of that class. \<open>files_of\<close> gives the image files
  of a class directory.
\<close>

definition directory_samples :: "flow_args \<Rightarrow> (string \<Rightarrow> 'file list) \<Rightarrow> ('file \<times> nat) list" where
  "directory_samples args files_of =
     concat (map (\<lambda>(c, i). map (\<lambda>f. (f, i)) (files_of c)) (class_indices args))"

text \<open>
  Modelled from the spec (glossary): a one-hot label has one entry per class, all zero
  except a 1 at the index of the true class.
\<close>

definition one_hot :: "nat \<Rightarrow> nat \<Rightarrow> rat list" where
  "one_hot width i = map (\<lambda>j. if j = i then 1 else 0) [0 ..< width]"

text \<open>
  Modelled from the spec: a decoded image is rows of pixels of 8-bit channel values, and
  the generator rescales it by multiplying every value by its \<open>rescale\<close> factor.
\<close>

type_synonym raw_image = "8 word list list list"

type_synonym image = "rat list list list"

definition standardize :: "image_data_generator \<Rightarrow> raw_image \<Rightarrow> image" where
  "standardize gen img = map (map (map (\<lambda>v. of_nat (unat v) * rescale gen))) img"

definition has_shape :: "'a list list list \<Rightarrow> nat \<Rightarrow> nat \<Rightarrow> nat \<Rightarrow> bool" where
  "has_shape img h w c =
     (length img = h \<and> list_all (\<lambda>row. length row = w \<and> list_all (\<lambda>px. length px = c) row) img)"

text \<open>
  Modelled from the spec: one pass cuts the order of the samples into consecutive groups
  of \<open>n\<close>; only the last group may be shorter, and no group is empty.
\<close>

function chunks :: "nat \<Rightarrow> 'a list \<Rightarrow> 'a list list" where
  "chunks n xs = (if n = 0 \<or> xs = [] then [] else take n xs # chunks n (drop n xs))"
  by pat_completeness auto
termination
  by (relation "measure (\<lambda>(n, xs). length xs)") auto

declare chunks.simps [simp del]

text \<open>
  Modelled from the spec: the batches of one pass over \<open>order\<close>, the samples of the subset
  in the order of the pass (the split and the shuffle of Keras are not part of it:
  \<open>order\<close> is any list of samples). \<open>load_img\<close> decodes a file and resizes it to the target size.
\<close>

definition make_batch ::
  "image_data_generator \<Rightarrow> flow_args \<Rightarrow> ('file \<Rightarrow> nat \<times> nat \<Rightarrow> raw_image) \<Rightarrow> ('file \<times> nat) list
     \<Rightarrow> image list \<times> rat list list" where
  "make_batch gen args load_img chunk =
     (map (\<lambda>(f, i). standardize gen (load_img f (target_size args))) chunk,
      map (\<lambda>(f, i). one_hot (num_classes args) i) chunk)"

definition flow_batches ::
  "image_data_generator \<Rightarrow> flow_args \<Rightarrow> ('file \<Rightarrow> nat \<times> nat \<Rightarrow> raw_image) \<Rightarrow> ('file \<times> nat) list
     \<Rightarrow> (image list \<times> rat list list) list" where
  "flow_batches gen args load_img order =
     map (make_batch gen args load_img) (chunks (batch_size args) order)"

text \<open>
  Modelled from the spec: each image is decoded and resized to the target size (section
  4.2) into an array of height x width x 3 channel values of 8 bits (section 3). The
  decoder and the interpolation belong to the imaging library: \<open>decode\<close> gives the
  picture of a file, \<open>resample\<close> the red, green and blue value of the resized picture
  at a position of the target grid.
\<close>

definition decode_resize ::
  "('file \<Rightarrow> 'pic) \<Rightarrow> ('pic \<Rightarrow> nat \<times> nat \<Rightarrow> nat \<times> nat \<Rightarrow> 8 word \<times> 8 word \<times> 8 word)
     \<Rightarrow> 'file \<Rightarrow> nat \<times> nat \<Rightarrow> raw_image" where
  "decode_resize decode resample f sz =
     (case sz of (h, w) \<Rightarrow>
        map (\<lambda>i. map (\<lambda>j. case resample (decode f) (h, w) (i, j) of (r, g, b) \<Rightarrow> [r, g, b]) [0 ..< w])
          [0 ..< h])"

text \<open>
  Modelled from the spec: the same fraction of each class's files is held out for
  validation (section 4.2). The files of a class directory are split at
  \<open>\<lfloor>validation_split * n\<rfloor>\<close>: the validation subset is the files before that
  position, the training subset the files from it on. The product is exact here.
\<close>

definition validation_files :: "image_data_generator \<Rightarrow> 'file list \<Rightarrow> 'file list" where
  "validation_files gen files =
     take (nat \<lfloor>validation_split gen * of_nat (length files)\<rfloor>) files"

definition training_files :: "image_data_generator \<Rightarrow> 'file list \<Rightarrow> 'file list" where
  "training_files gen files =
     drop (nat \<lfloor>validation_split gen * of_nat (length files)\<rfloor>) files"

subsection \<open>Cell 19: the batch statistics callback and the training run\<close>

text \<open>
  The model as the training run sees it: the weights of the feature extractor with its
  \<open>trainable\<close> flag (cell 13), the weights of the dense head, the state of the optimizer,
  and the metric accumulation, kept as the observations made since the last reset.
\<close>

record ('e, 'h, 's, 'o) keras_model =
  extractor_weights :: 'e
  extractor_trainable :: bool
  head_weights :: 'h
  optimizer_state :: 's
  metric_state :: "'o list"

text \<open>
  What the training run takes from Keras as parameters: the step of the optimizer
  (proposed new extractor weights, head weights and optimizer state for a batch), the
  loss and accuracy statistics of a batch under given weights, and the value a metric
  reports for the observations accumulated so far.
\<close>

record ('b, 'e, 'h, 's, 'o, 'v) keras =
  optimizer_step :: "'b \<Rightarrow> 'e \<times> 'h \<times> 's \<Rightarrow> 'e \<times> 'h \<times> 's"
  observe :: "'b \<Rightarrow> 'e \<times> 'h \<Rightarrow> 'o"
  loss_result :: "'o list \<Rightarrow> 'v"
  acc_result :: "'o list \<Rightarrow> 'v"

text \<open>Modelled from the spec: \<open>model.reset_metrics()\<close> clears the metric accumulation.\<close>

definition reset_metrics :: "('e, 'h, 's, 'o) keras_model \<Rightarrow> ('e, 'h, 's, 'o) keras_model" where
  "reset_metrics model = model\<lparr>metric_state := []\<rparr>"

text \<open>
  \<open>class CollectBatchStats\<close>: the two histories, empty at construction.
\<close>

record 'v CollectBatchStats =
  batch_losses :: "'v list"
  batch_acc :: "'v list"

definition CollectBatchStats_init :: "'v CollectBatchStats" where
  "CollectBatchStats_init = \<lparr>batch_losses = [], batch_acc = []\<rparr>"

text \<open>
  \<open>on_train_batch_end(self, batch, logs=None)\<close>. The callback and the model it refers
  to (\<open>self.model\<close>) are passed in and returned. \<open>logs\<close> is a dictionary or \<open>None\<close>;
  subscripting \<open>None\<close> and a missing key raise. An exception ends the run, so the
  state it leaves behind is not returned.
\<close>

definition on_train_batch_end ::
  "'v CollectBatchStats \<times> ('e, 'h, 's, 'o) keras_model \<Rightarrow> nat \<Rightarrow> (string \<rightharpoonup> 'v) option
     \<Rightarrow> py_error + 'v CollectBatchStats \<times> ('e, 'h, 's, 'o) keras_model" where
  "on_train_batch_end st batch logs =
     (case st of (self, model) \<Rightarrow>
      case logs of None \<Rightarrow> Inl TypeError | Some d \<Rightarrow>
      case d ''loss'' of None \<Rightarrow> Inl KeyError | Some loss \<Rightarrow>
      case d ''acc'' of None \<Rightarrow> Inl KeyError | Some acc \<Rightarrow>
        Inr (self\<lparr>batch_losses := batch_losses self @ [loss],
                  batch_acc := batch_acc self @ [acc]\<rparr>,
             reset_metrics model))"

text \<open>
  \<open>steps_per_epoch = np.ceil(train_data_gen.samples/train_data_gen.batch_size)\<close>: the
  true division \<open>/\<close> of two Python integers (\<open>from __future__ import division\<close>),
  then \<open>np.ceil\<close> of the resulting float. The quotient of two integers is a \<open>float64\<close>:
  the double nearest to the exact quotient, a tie going to the even significand. The
  doubles are embedded as the rationals they denote.

  Rounding to the nearest integer, a tie going to the even one.
\<close>

definition round_half_even :: "rat \<Rightarrow> int" where
  "round_half_even y =
     (let f = \<lfloor>y\<rfloor> in
      if y - of_int f < 1 / 2 then f
      else if 1 / 2 < y - of_int f then f + 1
      else if even f then f else f + 1)"

text \<open>
  The spacing of the doubles around a positive \<open>x\<close>: \<open>2 ^ (e - 52)\<close> for
  \<open>2 ^ e \<le> x < 2 ^ (e + 1)\<close>, found by halving or doubling \<open>x\<close> into \<open>[1, 2)\<close>, and
  never below \<open>2 ^ -1074\<close>, the spacing of the subnormal doubles.
\<close>

function ulp_up :: "rat \<Rightarrow> rat \<Rightarrow> rat" where
  "ulp_up x u = (if x < 2 then u else ulp_up (x / 2) (2 * u))"
  by pat_completeness auto
termination
proof (relation "measure (\<lambda>(x, u). nat \<lfloor>x\<rfloor>)")
  show "wf (measure (\<lambda>(x, u). nat \<lfloor>x\<rfloor>))" by simp
next
  fix x u :: rat
  assume "\<not> x < 2"
  then have x: "2 \<le> x" by simp
  then have "2 \<le> \<lfloor>x\<rfloor>" by (simp add: le_floor_iff)
  then have f: "2 \<le> (of_int \<lfloor>x\<rfloor> :: rat)" by (metis of_int_le_iff of_int_numeral)
  have "x < of_int \<lfloor>x\<rfloor> + 1" by linarith
  with f have "x / 2 < of_int \<lfloor>x\<rfloor>" by linarith
  then have "\<lfloor>x / 2\<rfloor> < \<lfloor>x\<rfloor>" by (simp only: floor_less_iff)
  moreover have "0 \<le> \<lfloor>x / 2\<rfloor>" using x by simp
  ultimately have "nat \<lfloor>x / 2\<rfloor> < nat \<lfloor>x\<rfloor>" by linarith
  then show "((x / 2, 2 * u), (x, u)) \<in> measure (\<lambda>(x, u). nat \<lfloor>x\<rfloor>)" by simp
qed

declare ulp_up.simps [simp del]

function ulp_down :: "rat \<Rightarrow> rat \<Rightarrow> rat" where
  "ulp_down x u =
     (if 1 \<le> x \<or> x \<le> 0 \<or> u \<le> 1 / 2 ^ 1074 then u else ulp_down (2 * x) (u / 2))"
  by pat_completeness auto
termination
proof (relation "measure (\<lambda>(x, u). nat \<lceil>1 / x\<rceil>)")
  show "wf (measure (\<lambda>(x, u). nat \<lceil>1 / x\<rceil>))" by simp
next
  fix x u :: rat
  assume "\<not> (1 \<le> x \<or> x \<le> 0 \<or> u \<le> 1 / 2 ^ 1074)"
  then have x: "0 < x" "x < 1" by simp_all
  define y where "y = 1 / x"
  from x have y: "1 < y" by (simp add: y_def)
  have c: "y \<le> of_int \<lceil>y\<rceil>" by linarith
  with y have "1 < (of_int \<lceil>y\<rceil> :: rat)" by linarith
  then have "1 < \<lceil>y\<rceil>" by (metis of_int_less_iff of_int_1)
  then have "2 \<le> (of_int \<lceil>y\<rceil> :: rat)" by (metis of_int_le_iff of_int_numeral zless_imp_add1_zle one_add_one)
  with c have "y / 2 \<le> of_int \<lceil>y\<rceil> - 1" by linarith
  then have "y / 2 \<le> of_int (\<lceil>y\<rceil> - 1)" by simp
  then have "\<lceil>y / 2\<rceil> \<le> \<lceil>y\<rceil> - 1" by (simp only: ceiling_le_iff)
  with \<open>1 < \<lceil>y\<rceil>\<close> have "nat \<lceil>y / 2\<rceil> < nat \<lceil>y\<rceil>" by linarith
  moreover have "1 / (2 * x) = y / 2" by (simp add: y_def)
  ultimately have "nat \<lceil>1 / (2 * x)\<rceil> < nat \<lceil>1 / x\<rceil>"
    by (simp only: y_def)
  then show "((2 * x, u / 2), (x, u)) \<in> measure (\<lambda>(x, u). nat \<lceil>1 / x\<rceil>)" by simp
qed

declare ulp_down.simps [simp del]

text \<open>
  The double nearest to a non-negative rational, with an unbounded exponent: the caller
  compares the result with \<open>2 ^ 1024\<close> to detect overflow.
\<close>

definition float64_ulp :: "rat \<Rightarrow> rat" where
  "float64_ulp x = (if 1 \<le> x then ulp_up x (1 / 2 ^ 52) else ulp_down x (1 / 2 ^ 52))"

definition float64_nearest :: "rat \<Rightarrow> rat" where
  "float64_nearest x = of_int (round_half_even (x / float64_ulp x)) * float64_ulp x"

text \<open>
  \<open>a / b\<close> on Python integers: \<open>ZeroDivisionError\<close> for a zero divisor; otherwise the
  correctly rounded quotient, or \<open>OverflowError\<close> when it rounds beyond the largest
  finite double.
\<close>

definition int_truediv :: "int \<Rightarrow> int \<Rightarrow> py_error + rat" where
  "int_truediv a b =
     (if b = 0 then Inl ZeroDivisionError
      else let q = (of_int a :: rat) / of_int b; r = float64_nearest \<bar>q\<bar> in
           if 2 ^ 1024 \<le> r then Inl OverflowError
           else Inr (if q < 0 then - r else r))"

text \<open>
  \<open>np.ceil\<close> of a finite double is exact; the step count is given as the integer it
  denotes.
\<close>

definition steps_per_epoch :: "int \<Rightarrow> int \<Rightarrow> py_error + int" where
  "steps_per_epoch samples batch_size' =
     (case int_truediv samples batch_size' of
        Inl e \<Rightarrow> Inl e
      | Inr q \<Rightarrow> Inr \<lceil>q\<rceil>)"

text \<open>
  Modelled from the spec: one training step of \<open>model.fit\<close> (section 4.4). The optimizer
  updates the parameters after the batch, those of the extractor only while it is
  trainable (section 3), and the batch's loss and accuracy join the metric accumulation.
\<close>

definition train_step ::
  "('b, 'e, 'h, 's, 'o, 'v) keras \<Rightarrow> ('e, 'h, 's, 'o) keras_model \<Rightarrow> 'b \<Rightarrow> ('e, 'h, 's, 'o) keras_model" where
  "train_step K model b =
     (case optimizer_step K b (extractor_weights model, head_weights model, optimizer_state model) of
        (e', h', s') \<Rightarrow>
          model\<lparr>extractor_weights := (if extractor_trainable model then e' else extractor_weights model),
                head_weights := h',
                optimizer_state := s',
                metric_state := metric_state model
                   @ [observe K b (extractor_weights model, head_weights model)]\<rparr>)"

text \<open>
  Modelled from the spec: the \<open>logs\<close> that the run hands to its callbacks, the current
  value of the loss and of the metric named in \<open>model.compile(loss=..., metrics=['acc'])\<close>.
\<close>

definition logs_of :: "('b, 'e, 'h, 's, 'o, 'v) keras \<Rightarrow> ('e, 'h, 's, 'o) keras_model \<Rightarrow> (string \<rightharpoonup> 'v)" where
  "logs_of K model =
     [''loss'' \<mapsto> loss_result K (metric_state model), ''acc'' \<mapsto> acc_result K (metric_state model)]"

text \<open>
  Modelled from the spec: the steps of one epoch. The training iterator wraps around and
  never ends, so it is a function from the number of the draw to the batch;
  \<open>first\<close> is the number of the epoch's first draw. After every batch the callback is
  invoked with the step number and the logs; an exception of the callback ends the run.
\<close>

fun train_epoch ::
  "('b, 'e, 'h, 's, 'o, 'v) keras \<Rightarrow> (nat \<Rightarrow> 'b) \<Rightarrow> nat \<Rightarrow> nat list
     \<Rightarrow> 'v CollectBatchStats \<times> ('e, 'h, 's, 'o) keras_model
     \<Rightarrow> py_error + 'v CollectBatchStats \<times> ('e, 'h, 's, 'o) keras_model" where
  "train_epoch K train_batches first [] st = Inr st"
| "train_epoch K train_batches first (step # steps) st =
     (case st of (self, model) \<Rightarrow>
        (case on_train_batch_end (self, train_step K model (train_batches (first + step))) step
                (Some (logs_of K (train_step K model (train_batches (first + step))))) of
           Inl e \<Rightarrow> Inl e
         | Inr st' \<Rightarrow> train_epoch K train_batches first steps st'))"

text \<open>
  Modelled from the spec: the epochs of \<open>model.fit\<close>. Every epoch starts from reset
  metrics and runs \<open>steps\<close> steps. The validation pass at the end of an epoch reads the
  model and leaves parameters and callback untouched; it is left out.
\<close>

fun fit_epochs ::
  "('b, 'e, 'h, 's, 'o, 'v) keras \<Rightarrow> (nat \<Rightarrow> 'b) \<Rightarrow> nat \<Rightarrow> nat list
     \<Rightarrow> 'v CollectBatchStats \<times> ('e, 'h, 's, 'o) keras_model
     \<Rightarrow> py_error + 'v CollectBatchStats \<times> ('e, 'h, 's, 'o) keras_model" where
  "fit_epochs K train_batches steps [] st = Inr st"
| "fit_epochs K train_batches steps (epoch # epochs) st =
     (case st of (self, model) \<Rightarrow>
        (case train_epoch K train_batches (epoch * steps) [0 ..< steps] (self, reset_metrics model) of
           Inl e \<Rightarrow> Inl e
         | Inr st' \<Rightarrow> fit_epochs K train_batches steps epochs st'))"

text \<open>
  Modelled from the spec: \<open>model.fit(train_data_gen, epochs, steps_per_epoch,
  callbacks=[callback])\<close>, from the first epoch on.
\<close>

definition fit ::
  "('b, 'e, 'h, 's, 'o, 'v) keras \<Rightarrow> ('e, 'h, 's, 'o) keras_model \<Rightarrow> (nat \<Rightarrow> 'b) \<Rightarrow> nat \<Rightarrow> nat
     \<Rightarrow> 'v CollectBatchStats
     \<Rightarrow> py_error + 'v CollectBatchStats \<times> ('e, 'h, 's, 'o) keras_model" where
  "fit K model train_batches epochs steps callback =
     fit_epochs K train_batches steps [0 ..< epochs] (callback, model)"

text \<open>
  Cell 19 as a whole: the step count, a fresh callback, and \<open>model.fit\<close> with
  \<open>epochs=3\<close>.
\<close>

definition training_cell ::
  "('b, 'e, 'h, 's, 'o, 'v) keras \<Rightarrow> ('e, 'h, 's, 'o) keras_model \<Rightarrow> (nat \<Rightarrow> 'b) \<Rightarrow> int \<Rightarrow> int
     \<Rightarrow> py_error + 'v CollectBatchStats \<times> ('e, 'h, 's, 'o) keras_model" where
  "training_cell K model train_batches samples batch_size' =
     (case steps_per_epoch samples batch_size' of
        Inl e \<Rightarrow> Inl e
      | Inr steps \<Rightarrow> fit K model train_batches 3 (nat steps) CollectBatchStats_init)"

text \<open>
  The model after \<open>n\<close> training steps on the first \<open>n\<close> draws of the iterator, for
  stating which weights a batch was evaluated with.
\<close>

primrec model_after ::
  "('b, 'e, 'h, 's, 'o, 'v) keras \<Rightarrow> (nat \<Rightarrow> 'b) \<Rightarrow> ('e, 'h, 's, 'o) keras_model \<Rightarrow> nat
     \<Rightarrow> ('e, 'h, 's, 'o) keras_model" where
  "model_after K train_batches model 0 = model"
| "model_after K train_batches model (Suc n) =
     train_step K (model_after K train_batches model n) (train_batches n)"

text \<open>
  The loss and the accuracy of draw \<open>n\<close> alone: the metric value of the single
  observation of that batch, under the weights the model has when the batch arrives.
\<close>

definition single_batch_obs ::
  "('b, 'e, 'h, 's, 'o, 'v) keras \<Rightarrow> (nat \<Rightarrow> 'b) \<Rightarrow> ('e, 'h, 's, 'o) keras_model \<Rightarrow> nat \<Rightarrow> 'o" where
  "single_batch_obs K train_batches model n =
     observe K (train_batches n)
       (extractor_weights (model_after K train_batches model n),
        head_weights (model_after K train_batches model n))"

subsection \<open>Cell 23: the evaluation/report loop\<close>

text \<open>
  What one pass of the inner loop draws: the grid cell, the image shown, and the text and
  colour given to \<open>plt.title\<close>.
\<close>

record 'img axes =
  cell :: nat
  shown :: 'img
  title_text :: string
  title_color :: string

text \<open>
  One figure per batch: \<open>plt.suptitle\<close> is called inside the inner loop, so a figure of
  a batch with no sample has no super-title.
\<close>

record 'img figure =
  suptitle :: "string option"
  grid :: "'img axes list"

text \<open>A batch as the loader yields it: \<open>(image_batch, label_batch)\<close>.\<close>

type_synonym ('img, 'l) batch = "'img list \<times> 'l list list"

text \<open>
  \<open>class_names\<close> of cell 23: the keys of \<open>val_data_gen.class_indices\<close> sorted by their
  index, each in title case. \<open>items\<close> are the dictionary's items, an association list.
\<close>

definition class_names_of :: "(string \<times> nat) list \<Rightarrow> string list" where
  "class_names_of items = map (\<lambda>(key, val). str_title key) (sort_key snd items)"

text \<open>
  The value of the local variable \<open>title\<close> (line 317 of the notebook file): the predicted
  name alone when the prediction is right, else the predicted name followed by the true
  class name in parentheses. \<open>class_names[label_id[n]]\<close> is evaluated only in the second
  branch.
\<close>

definition title_var :: "string list \<Rightarrow> string \<Rightarrow> nat \<Rightarrow> nat \<Rightarrow> py_error + string" where
  "title_var class_names predicted_label p l =
     (if p = l then Inr (str_title predicted_label)
      else (case getitem class_names l of
              Inl e \<Rightarrow> Inl e
            | Inr true_name \<Rightarrow> Inr (str_title predicted_label @ ''('' @ true_name @ '')'')))"

text \<open>
  The body of \<open>for n in range(image_batch.shape[0])\<close>, in the source's order of
  evaluation. \<open>title\<close> is computed and then not used: \<open>plt.title\<close> is given
  \<open>predicted_label_batch[n].title()\<close>.
\<close>

definition render_sample ::
  "string list \<Rightarrow> 'img list \<Rightarrow> nat list \<Rightarrow> string list \<Rightarrow> nat list \<Rightarrow> nat
     \<Rightarrow> py_error + 'img axes" where
  "render_sample class_names image_batch predicted_id predicted_label_batch label_id n =
     (case subplot 8 4 (n + 1) of Inl e \<Rightarrow> Inl e | Inr num \<Rightarrow>
      case getitem image_batch n of Inl e \<Rightarrow> Inl e | Inr img \<Rightarrow>
      case getitem predicted_id n of Inl e \<Rightarrow> Inl e | Inr p \<Rightarrow>
      case getitem label_id n of Inl e \<Rightarrow> Inl e | Inr l \<Rightarrow>
      let color = (if p = l then ''green'' else ''red'') in
      case getitem predicted_label_batch n of Inl e \<Rightarrow> Inl e | Inr predicted_label \<Rightarrow>
      case title_var class_names predicted_label p l of Inl e \<Rightarrow> Inl e | Inr title \<Rightarrow>
        Inr \<lparr>cell = num, shown = img,
             title_text = str_title predicted_label, title_color = color\<rparr>)"

text \<open>The inner loop over \<open>range(image_batch.shape[0])\<close>: it stops at the first exception.\<close>

fun render_samples ::
  "string list \<Rightarrow> 'img list \<Rightarrow> nat list \<Rightarrow> string list \<Rightarrow> nat list \<Rightarrow> nat list
     \<Rightarrow> py_error + 'img axes list" where
  "render_samples class_names image_batch predicted_id predicted_label_batch label_id [] = Inr []"
| "render_samples class_names image_batch predicted_id predicted_label_batch label_id (n # ns) =
     (case render_sample class_names image_batch predicted_id predicted_label_batch label_id n of
        Inl e \<Rightarrow> Inl e
      | Inr a \<Rightarrow>
         (case render_samples class_names image_batch predicted_id predicted_label_batch
                 label_id ns of
            Inl e \<Rightarrow> Inl e
          | Inr as \<Rightarrow> Inr (a # as)))"

text \<open>
  The body of the outer loop for one batch, \<open>batch_count\<close> already incremented.
  \<open>predict\<close> is \<open>model.predict\<close>, a parameter.
\<close>

definition render_batch ::
  "('img list \<Rightarrow> 'p::linorder list list) \<Rightarrow> string list \<Rightarrow> nat
     \<Rightarrow> ('img, 'l::linorder) batch \<Rightarrow> py_error + 'img figure" where
  "render_batch predict class_names batch_count b =
     (case b of (image_batch, label_batch) \<Rightarrow>
      case argmax_rows (predict image_batch) of Inl e \<Rightarrow> Inl e | Inr predicted_id \<Rightarrow>
      case take_indices class_names predicted_id of Inl e \<Rightarrow> Inl e | Inr predicted_label_batch \<Rightarrow>
      case argmax_rows label_batch of Inl e \<Rightarrow> Inl e | Inr label_id \<Rightarrow>
      case render_samples class_names image_batch predicted_id predicted_label_batch label_id
             [0 ..< length image_batch] of
        Inl e \<Rightarrow> Inl e
      | Inr as \<Rightarrow>
          Inr \<lparr>suptitle =
                 (if image_batch = [] then None
                  else Some (''Model predictions (green: correct, red: incorrect) for batch ''
                             @ str_nat batch_count)),
               grid = as\<rparr>)"

text \<open>
  How the outer loop ended: by \<open>break\<close>, by exhausting the iterator, or by an exception.
\<close>

datatype outcome = Break | Exhausted | Raised py_error

text \<open>
  The outer loop \<open>for image_batch, label_batch in val_data_gen\<close>. The iterator is the
  function \<open>batches\<close>: \<open>batches i\<close> is what the \<open>i\<close>-th call of \<open>next\<close> returns,
  \<open>None\<close> for \<open>StopIteration\<close>; a Keras iterator wraps around and never stops, so the
  loop is a partial function. It returns the figures shown so far and how it ended.
\<close>

partial_function (option) eval_loop ::
  "('img list \<Rightarrow> 'p::linorder list list) \<Rightarrow> string list \<Rightarrow> (nat \<Rightarrow> ('img, 'l::linorder) batch option)
     \<Rightarrow> nat \<Rightarrow> nat \<Rightarrow> 'img figure list \<Rightarrow> ('img figure list \<times> outcome) option" where
  "eval_loop predict class_names batches i batch_count figs =
     (case batches i of
        None \<Rightarrow> Some (figs, Exhausted)
      | Some b \<Rightarrow>
         (case render_batch predict class_names (batch_count + 1) b of
            Inl e \<Rightarrow> Some (figs, Raised e)
          | Inr fig \<Rightarrow>
             if batch_count + 1 = 2 then Some (figs @ [fig], Break)
             else eval_loop predict class_names batches (i + 1) (batch_count + 1) (figs @ [fig])))"

text \<open>
  Cell 23 from \<open>batch_count = 0\<close> on; \<open>items\<close> are the items of
  \<open>val_data_gen.class_indices\<close>.
\<close>

definition evaluation_report ::
  "('img list \<Rightarrow> 'p::linorder list list) \<Rightarrow> (string \<times> nat) list
     \<Rightarrow> (nat \<Rightarrow> ('img, 'l::linorder) batch option) \<Rightarrow> ('img figure list \<times> outcome) option" where
  "evaluation_report predict items batches =
     eval_loop predict (class_names_of items) batches 0 0 []"

text \<open>
  What the loop relies on from its collaborators, for one batch: the loader yields at
  most \<open>BATCH_SIZE\<close> images with one label row each, the model predicts one row per
  image, and no row is empty or wider than the list of class names.
\<close>

definition batch_ok ::
  "('img list \<Rightarrow> 'p list list) \<Rightarrow> string list \<Rightarrow> ('img, 'l) batch \<Rightarrow> bool" where
  "batch_ok predict class_names b =
     (case b of (image_batch, label_batch) \<Rightarrow>
        length image_batch \<le> BATCH_SIZE \<and>
        length label_batch = length image_batch \<and>
        length (predict image_batch) = length image_batch \<and>
        list_all (\<lambda>row. row \<noteq> [] \<and> length row \<le> length class_names) (predict image_batch) \<and>
        list_all (\<lambda>row. row \<noteq> [] \<and> length row \<le> length class_names) label_batch)"

subsection \<open>Small concrete inputs\<close>

text \<open>
  A root with two class directories and the license file; the items of the loader's
  \<open>class_indices\<close> for it; a model that predicts the
  first class for the file \<open>tumor.tif\<close> and the second class otherwise; a validation
  iterator with three batches of two images; an optimizer that moves every weight; a
  decoder that yields the same image of the requested size for every file; the image
  files of the two class directories.
\<close>

definition demo_dir :: listing where
  "demo_dir = [(''01_TUMOR'', Directory), (''02_STROMA'', Directory), (''LICENSE.txt'', RegularFile)]"

definition demo_items :: "(string \<times> nat) list" where
  "demo_items = [(''01_TUMOR'', 0), (''02_STROMA'', 1)]"

definition demo_predict :: "string list \<Rightarrow> rat list list" where
  "demo_predict image_batch =
     map (\<lambda>img. if img = ''tumor.tif'' then [9 / 10, 1 / 10] else [1 / 5, 4 / 5]) image_batch"

definition demo_batches :: "nat \<Rightarrow> (string, rat) batch option" where
  "demo_batches i =
     (if i < 3 then Some ([''tumor.tif'', ''stroma.tif''], [[1, 0], [0, 1]]) else None)"

definition demo_keras :: "(nat, nat, nat, nat, nat, nat) keras" where
  "demo_keras =
     \<lparr>optimizer_step = (\<lambda>b (e, h, s). (e + b + 1, h + b + 1, s + 1)),
      observe = (\<lambda>b (e, h). b + e + h),
      loss_result = sum_list,
      acc_result = length\<rparr>"

definition demo_model :: "(nat, nat, nat, nat) keras_model" where
  "demo_model =
     \<lparr>extractor_weights = 7, extractor_trainable = False, head_weights = 0,
      optimizer_state = 0, metric_state = []\<rparr>"

definition demo_load_img :: "string \<Rightarrow> nat \<times> nat \<Rightarrow> raw_image" where
  "demo_load_img f sz = replicate (fst sz) (replicate (snd sz) [0, 128, 255])"

definition demo_files_of :: "string \<Rightarrow> string list" where
  "demo_files_of c = (if c = ''01_TUMOR'' then [''t1.tif'', ''t2.tif'']
                      else if c = ''02_STROMA'' then [''s1.tif''] else [])"

text \<open>
  Two class directories of 180 image files each, the files numbered from 0; a resized
  picture whose red value is the row and whose green value is the column of the pixel;
  the samples of the validation subset of that root, in the order of the unshuffled
  pass.
\<close>

definition demo_tiles :: "string \<Rightarrow> nat list" where
  "demo_tiles c = (if c = ''01_TUMOR'' then [0 ..< 180]
                   else if c = ''02_STROMA'' then [180 ..< 360] else [])"

definition demo_resample :: "nat \<Rightarrow> nat \<times> nat \<Rightarrow> nat \<times> nat \<Rightarrow> 8 word \<times> 8 word \<times> 8 word" where
  "demo_resample pic sz pos = (word_of_nat (fst pos), word_of_nat (snd pos), 255)"

definition demo_val_order :: "(nat \<times> nat) list" where
  "demo_val_order =
     directory_samples (val_data_gen_args demo_dir) (\<lambda>c. validation_files image_generator (demo_tiles c))"

section \<open>Properties\<close>

subsection \<open>Arg-max and indexing\<close>

lemma argmax_from_bound:
  "best_i < i \<Longrightarrow> argmax_from ys i best best_i < i + length ys"
proof (induction ys arbitrary: i best best_i)
  case Nil
  then show ?case by simp
next
  case (Cons y ys)
  have "argmax_from ys (Suc i) y i < Suc i + length ys"
    using Cons.IH [of i "Suc i" y] by simp
  moreover have "argmax_from ys (Suc i) best best_i < Suc i + length ys"
    using Cons.IH [of best_i "Suc i" best] Cons.prems by simp
  ultimately show ?case by simp
qed

lemma argmax_in_range: "argmax row = Inr i \<Longrightarrow> i < length row"
  using argmax_from_bound [of 0 1]
  by (auto simp: argmax_def split: list.splits)

lemma argmax_nonempty: "row \<noteq> [] \<Longrightarrow> \<exists>i. argmax row = Inr i"
  by (cases row) (simp_all add: argmax_def)

lemma argmax_rows_ok:
  "list_all (\<lambda>row. row \<noteq> []) rows \<Longrightarrow>
   \<exists>ids. argmax_rows rows = Inr ids \<and> length ids = length rows \<and>
         (\<forall>k < length rows. ids ! k < length (rows ! k))"
proof (induction rows)
  case Nil
  then show ?case by simp
next
  case (Cons row rows)
  then obtain ids where ids: "argmax_rows rows = Inr ids" "length ids = length rows"
      "\<forall>k < length rows. ids ! k < length (rows ! k)" by auto
  from Cons.prems obtain i where i: "argmax row = Inr i" using argmax_nonempty by auto
  then have "i < length row" by (rule argmax_in_range)
  with ids i show ?case by (auto simp: nth_Cons split: nat.splits)
qed

lemma take_indices_ok:
  "list_all (\<lambda>i. i < length xs) ids \<Longrightarrow> take_indices xs ids = Inr (map (\<lambda>i. xs ! i) ids)"
  by (induction ids) (simp_all add: getitem_def)

lemma argmax_from_spec:
  assumes "length xs = i" "bi < i" "best = xs ! bi"
    "\<forall>j<i. xs ! j \<le> best" "\<forall>j<bi. xs ! j < best"
  shows "argmax_from ys i best bi < i + length ys \<and>
         (\<forall>j < i + length ys. (xs @ ys) ! j \<le> (xs @ ys) ! argmax_from ys i best bi) \<and>
         (\<forall>j < argmax_from ys i best bi. (xs @ ys) ! j < (xs @ ys) ! argmax_from ys i best bi)"
  using assms
proof (induction ys arbitrary: xs i best bi)
  case Nil
  then show ?case by simp
next
  case (Cons y ys)
  show ?case
  proof (cases "best < y")
    case True
    have "argmax_from ys (Suc i) y i < Suc i + length ys \<and>
         (\<forall>j < Suc i + length ys. ((xs @ [y]) @ ys) ! j \<le> ((xs @ [y]) @ ys) ! argmax_from ys (Suc i) y i) \<and>
         (\<forall>j < argmax_from ys (Suc i) y i. ((xs @ [y]) @ ys) ! j < ((xs @ [y]) @ ys) ! argmax_from ys (Suc i) y i)"
    proof (rule Cons.IH)
      show "length (xs @ [y]) = Suc i" using Cons.prems by simp
      show "i < Suc i" by simp
      show "y = (xs @ [y]) ! i" using Cons.prems by (simp add: nth_append)
      show "\<forall>j<Suc i. (xs @ [y]) ! j \<le> y"
        using Cons.prems True by (auto simp: nth_append less_Suc_eq intro: less_imp_le le_less_trans)
      show "\<forall>j<i. (xs @ [y]) ! j < y"
        using Cons.prems True by (auto simp: nth_append intro: le_less_trans)
    qed
    with True show ?thesis by simp
  next
    case False
    have "argmax_from ys (Suc i) best bi < Suc i + length ys \<and>
         (\<forall>j < Suc i + length ys. ((xs @ [y]) @ ys) ! j \<le> ((xs @ [y]) @ ys) ! argmax_from ys (Suc i) best bi) \<and>
         (\<forall>j < argmax_from ys (Suc i) best bi. ((xs @ [y]) @ ys) ! j < ((xs @ [y]) @ ys) ! argmax_from ys (Suc i) best bi)"
    proof (rule Cons.IH)
      show "length (xs @ [y]) = Suc i" using Cons.prems by simp
      show "bi < Suc i" using Cons.prems by simp
      show "best = (xs @ [y]) ! bi" using Cons.prems by (simp add: nth_append)
      show "\<forall>j<Suc i. (xs @ [y]) ! j \<le> best"
        using Cons.prems False by (auto simp: nth_append less_Suc_eq)
      show "\<forall>j<bi. (xs @ [y]) ! j < best"
        using Cons.prems by (auto simp: nth_append)
    qed
    with False show ?thesis by simp
  qed
qed

lemma argmax_spec:
  assumes "argmax row = Inr r"
  shows "r < length row \<and> (\<forall>j < length row. row ! j \<le> row ! r) \<and> (\<forall>j < r. row ! j < row ! r)"
proof (cases row)
  case Nil
  with assms show ?thesis by (simp add: argmax_def)
next
  case (Cons x xs)
  with assms have r: "r = argmax_from xs 1 x 0" by (simp add: argmax_def)
  from argmax_from_spec [of "[x]" 1 0 x xs] show ?thesis
    unfolding r Cons by simp
qed

lemma one_hot_nth: "j < width \<Longrightarrow> one_hot width i ! j = (if j = i then 1 else 0)"
  by (simp add: one_hot_def)

lemma length_one_hot: "length (one_hot width i) = width"
  by (simp add: one_hot_def)

lemma argmax_one_hot:
  assumes "i < width"
  shows "argmax (one_hot width i) = Inr i"
proof -
  have "one_hot width i \<noteq> []" using assms by (simp add: one_hot_def)
  then obtain r where r: "argmax (one_hot width i) = Inr r"
    by (cases "one_hot width i") (auto simp: argmax_def)
  from argmax_spec [OF r] have rl: "r < width"
    and mx: "one_hot width i ! i \<le> one_hot width i ! r"
    using assms by (simp_all add: length_one_hot)
  have "r = i"
  proof (rule ccontr)
    assume "r \<noteq> i"
    with rl assms mx show False by (simp add: one_hot_nth)
  qed
  with r show ?thesis by simp
qed

subsection \<open>Batches of one pass\<close>

lemma chunks_props:
  "c \<in> set (chunks n xs) \<Longrightarrow> c \<noteq> [] \<and> length c \<le> n \<and> set c \<subseteq> set xs"
proof (induction n xs rule: chunks.induct)
  case (1 n xs)
  show ?case
  proof (cases "n = 0 \<or> xs = []")
    case True
    then have "chunks n xs = []" by (subst chunks.simps) simp
    with "1.prems" show ?thesis by simp
  next
    case False
    then have "chunks n xs = take n xs # chunks n (drop n xs)"
      by (subst chunks.simps) simp
    with "1.prems" have "c = take n xs \<or> c \<in> set (chunks n (drop n xs))"
      by simp
    then show ?thesis
    proof
      assume "c = take n xs"
      with False show ?thesis by (auto dest: in_set_takeD)
    next
      assume "c \<in> set (chunks n (drop n xs))"
      with "1.IH" False have "c \<noteq> [] \<and> length c \<le> n \<and> set c \<subseteq> set (drop n xs)" by blast
      then show ?thesis by (auto dest: in_set_dropD)
    qed
  qed
qed

lemma chunks_full:
  "Suc k < length (chunks n xs) \<Longrightarrow> length (chunks n xs ! k) = n"
proof (induction n xs arbitrary: k rule: chunks.induct)
  case (1 n xs)
  show ?case
  proof (cases "n = 0 \<or> xs = []")
    case True
    then have "chunks n xs = []" by (subst chunks.simps) simp
    with "1.prems" show ?thesis by simp
  next
    case False
    then have eq: "chunks n xs = take n xs # chunks n (drop n xs)"
      by (subst chunks.simps) simp
    show ?thesis
    proof (cases k)
      case 0
      have "chunks n (drop n xs) \<noteq> []" using "1.prems" eq 0 by auto
      then have "drop n xs \<noteq> []" by (subst (asm) chunks.simps) (simp split: if_splits)
      then have "n < length xs" by simp
      with eq 0 show ?thesis by simp
    next
      case (Suc k')
      with "1.prems" eq have "Suc k' < length (chunks n (drop n xs))" by simp
      with "1.IH" False have "length (chunks n (drop n xs) ! k') = n" by blast
      with eq Suc show ?thesis by simp
    qed
  qed
qed

lemma standardize_shape: "has_shape (standardize gen img) h w c = has_shape img h w c"
  by (simp add: has_shape_def standardize_def list_all_iff)

lemma rescaled_range:
  fixes v :: "8 word"
  shows "0 \<le> (of_nat (unat v) :: rat) * rescale image_generator \<and>
         (of_nat (unat v) :: rat) * rescale image_generator \<le> 1"
proof -
  have bound: "0 \<le> (of_nat n :: rat) * (1 / 255) \<and> (of_nat n :: rat) * (1 / 255) \<le> 1"
    if "n \<le> 255" for n :: nat
  proof -
    from that have "(of_nat n :: rat) \<le> of_nat 255" by (simp only: of_nat_le_iff)
    then show ?thesis by simp
  qed
  have "unat v < 2 ^ LENGTH(8)" by (rule unsigned_less)
  then have "unat v \<le> 255" by simp
  from bound [OF this] show ?thesis
    by (simp add: image_generator_def del: of_nat_unat)
qed

lemma standardize_range:
  assumes "row \<in> set (standardize image_generator img)" "px \<in> set row" "x \<in> set px"
  shows "0 \<le> x \<and> x \<le> 1"
  using assms rescaled_range by (auto simp: standardize_def)

lemma notebook_args:
  assumes "args = train_data_gen_args data_dir \<or> args = val_data_gen_args data_dir"
  shows "batch_size args = 32" "target_size args = (224, 224)"
    "classes args = CLASS_NAMES data_dir"
  using assms
  by (auto simp: train_data_gen_args_def val_data_gen_args_def BATCH_SIZE_def
      IMG_HEIGHT_def IMG_WIDTH_def)

lemma directory_samples_index:
  "(f, i) \<in> set (directory_samples args files_of) \<Longrightarrow> i < length (classes args)"
  by (auto simp: directory_samples_def class_indices_def dest!: set_zip_rightD)

subsection \<open>The training run\<close>

lemma int_div_bounds:
  fixes a b :: int
  assumes "0 < b"
  shows "(a div b) * b \<le> a" and "a < (a div b) * b + b"
proof -
  have e: "(a div b) * b + a mod b = a" by (rule div_mult_mod_eq)
  have "0 \<le> a mod b" and "a mod b < b" using assms by simp_all
  with e show "(a div b) * b \<le> a" and "a < (a div b) * b + b" by linarith+
qed

lemma round_half_even_near: "\<bar>of_int (round_half_even y) - y\<bar> \<le> 1 / 2"
proof -
  have "of_int \<lfloor>y\<rfloor> \<le> y" "y < of_int \<lfloor>y\<rfloor> + 1" by linarith+
  then show ?thesis by (auto simp: round_half_even_def Let_def)
qed

lemma ulp_up_spec:
  "1 \<le> x \<Longrightarrow> \<exists>n. ulp_up x u = u * 2 ^ n \<and> 2 ^ n \<le> x \<and> x < 2 ^ Suc n"
proof (induction x u rule: ulp_up.induct)
  case (1 x u)
  show ?case
  proof (cases "x < 2")
    case True
    then have "ulp_up x u = u * 2 ^ 0" by (subst ulp_up.simps) simp
    with True "1.prems" show ?thesis by (intro exI [of _ 0]) simp
  next
    case False
    then have "1 \<le> x / 2" by simp
    with "1.IH" False obtain n where n: "ulp_up (x / 2) (2 * u) = 2 * u * 2 ^ n"
        "2 ^ n \<le> x / 2" "x / 2 < 2 ^ Suc n" by blast
    from False have "ulp_up x u = ulp_up (x / 2) (2 * u)" by (subst ulp_up.simps) simp
    with n have "ulp_up x u = u * 2 ^ Suc n" "2 ^ Suc n \<le> x" "x < 2 ^ Suc (Suc n)" by simp_all
    then show ?thesis by blast
  qed
qed

lemma ulp_down_spec:
  assumes "0 < x" "x < 1" "1 \<le> x * 2 ^ k" "1 / 2 ^ 1074 < u / 2 ^ k"
  shows "\<exists>n. n \<le> k \<and> ulp_down x u = u / 2 ^ n \<and> 1 \<le> x * 2 ^ n"
  using assms
proof (induction k arbitrary: x u)
  case 0
  then show ?case by simp
next
  case (Suc k)
  have upos: "0 < u"
  proof (rule ccontr)
    assume "\<not> 0 < u"
    then have "u / 2 ^ Suc k \<le> 0" by (simp add: divide_nonpos_pos)
    moreover have "(0::rat) < 1 / 2 ^ 1074" by simp
    ultimately show False using Suc.prems(4) by linarith
  qed
  have p: "(1::rat) \<le> 2 ^ Suc k" by (rule one_le_power) simp
  have "u / 2 ^ Suc k \<le> u / 1" using upos p by (intro divide_left_mono) simp_all
  then have "u / 2 ^ Suc k \<le> u" by simp
  with Suc.prems(4) have big: "\<not> u \<le> 1 / 2 ^ 1074" by linarith
  from Suc.prems big have step: "ulp_down x u = ulp_down (2 * x) (u / 2)"
    by (subst ulp_down.simps) simp
  show ?case
  proof (cases "1 \<le> 2 * x")
    case True
    then have "ulp_down (2 * x) (u / 2) = u / 2" by (subst ulp_down.simps) simp
    with step True show ?thesis by (intro exI [of _ 1]) (simp add: mult.commute)
  next
    case False
    have "\<exists>n. n \<le> k \<and> ulp_down (2 * x) (u / 2) = u / 2 / 2 ^ n \<and> 1 \<le> 2 * x * 2 ^ n"
    proof (rule Suc.IH)
      show "0 < 2 * x" using Suc.prems by simp
      show "2 * x < 1" using False by simp
      show "1 \<le> 2 * x * 2 ^ k" using Suc.prems(3) by (simp add: mult.commute mult.left_commute)
      show "1 / 2 ^ 1074 < u / 2 / 2 ^ k" using Suc.prems(4) by (simp add: mult.commute)
    qed
    then obtain n where "n \<le> k" "ulp_down (2 * x) (u / 2) = u / 2 / 2 ^ n" "1 \<le> 2 * x * 2 ^ n"
      by blast
    with step have "Suc n \<le> Suc k" "ulp_down x u = u / 2 ^ Suc n" "1 \<le> x * 2 ^ Suc n"
      by (simp_all add: mult.commute mult.left_commute)
    then show ?thesis by blast
  qed
qed

lemma float64_ulp_props:
  fixes a b :: int
  assumes "0 < a" "a < 2 ^ 53" "0 < b" "b < 2 ^ 53"
  shows "\<exists>j. float64_ulp (of_int a / of_int b) * 2 ^ j = 1 \<and>
             float64_ulp (of_int a / of_int b) * 2 ^ 52 \<le> of_int a / of_int b"
proof -
  define q :: rat where "q = of_int a / of_int b"
  have bpos: "(0::rat) < of_int b" and apos: "(0::rat) < of_int a" using assms by simp_all
  have b1: "(1::rat) \<le> of_int b" using assms(3) by simp
  have a1: "(1::rat) \<le> of_int a" using assms(1) by simp
  have alt: "(of_int a :: rat) < 2 ^ 53" using assms(2) by simp
  have blt: "(of_int b :: rat) < 2 ^ 53" using assms(4) by simp
  have qpos: "0 < q" using apos bpos by (simp add: q_def)
  have "q \<le> of_int a" using b1 apos by (simp add: q_def divide_le_eq mult_le_cancel_left1)
  with alt have qlt: "q < 2 ^ 53" by linarith
  have "1 / of_int b \<le> q" using a1 bpos by (simp add: q_def divide_right_mono)
  moreover have "1 / 2 ^ 53 < 1 / (of_int b :: rat)" using blt bpos by (simp add: divide_strict_left_mono)
  ultimately have qgt: "1 / 2 ^ 53 < q" by linarith
  show ?thesis unfolding q_def [symmetric]
  proof (cases "1 \<le> q")
    case True
    from ulp_up_spec [OF True, of "1 / 2 ^ 52"] obtain n where
      n: "ulp_up q (1 / 2 ^ 52) = 1 / 2 ^ 52 * 2 ^ n" "2 ^ n \<le> q" "q < 2 ^ Suc n" by blast
    from n(2) qlt have "(2::rat) ^ n < 2 ^ 53" by linarith
    then have n53: "n < 53" by (simp only: power_strict_increasing_iff one_less_numeral_iff semiring_norm)
    have "(2::rat) ^ n * 2 ^ (52 - n) = 2 ^ 52"
      using n53 by (simp add: power_add [symmetric])
    then have A: "1 / 2 ^ 52 * 2 ^ n * (2::rat) ^ (52 - n) = 1" by simp
    have B: "1 / 2 ^ 52 * 2 ^ n * (2::rat) ^ 52 \<le> q" using n(2) by simp
    have fu: "float64_ulp q = 1 / 2 ^ 52 * 2 ^ n" using True n(1) by (simp only: float64_ulp_def if_True)
    have "float64_ulp q * 2 ^ (52 - n) = 1 \<and> float64_ulp q * 2 ^ 52 \<le> q"
      unfolding fu using A B by (rule conjI)
    then show "\<exists>j. float64_ulp q * 2 ^ j = 1 \<and> float64_ulp q * 2 ^ 52 \<le> q" by (rule exI)
  next
    case False
    then have q1: "q < 1" by simp
    have k: "1 \<le> q * 2 ^ 53" using qgt by (simp add: pos_divide_less_eq)
    have u: "1 / 2 ^ 1074 < (1 / 2 ^ 52 :: rat) / 2 ^ 53" by simp
    from ulp_down_spec [OF qpos q1 k u] obtain n where
      n: "n \<le> 53" "ulp_down q (1 / 2 ^ 52) = 1 / 2 ^ 52 / 2 ^ n" "1 \<le> q * 2 ^ n" by blast
    have A: "1 / 2 ^ 52 / 2 ^ n * (2::rat) ^ (52 + n) = 1" by (simp add: power_add)
    have B: "1 / 2 ^ 52 / 2 ^ n * (2::rat) ^ 52 \<le> q"
      using n(3) by (simp add: pos_divide_le_eq)
    have fu: "float64_ulp q = 1 / 2 ^ 52 / 2 ^ n" using False n(2) by (simp only: float64_ulp_def if_False)
    have "float64_ulp q * 2 ^ (52 + n) = 1 \<and> float64_ulp q * 2 ^ 52 \<le> q"
      unfolding fu using A B by (rule conjI)
    then show "\<exists>j. float64_ulp q * 2 ^ j = 1 \<and> float64_ulp q * 2 ^ 52 \<le> q" by (rule exI)
  qed
qed


lemma float64_nearest_ceiling:
  fixes a b :: int
  assumes "0 < a" "a < 2 ^ 53" "0 < b" "b < 2 ^ 53"
  shows "of_int \<lceil>of_int a / of_int b :: rat\<rceil> - 1 < float64_nearest (of_int a / of_int b) \<and>
         float64_nearest (of_int a / of_int b) \<le> of_int \<lceil>of_int a / of_int b :: rat\<rceil>"
proof -
  define q :: rat where "q = of_int a / of_int b"
  define u where "u = float64_ulp q"
  define K where "K = \<lceil>q\<rceil>"
  from float64_ulp_props [OF assms] obtain j where
    j: "u * 2 ^ j = 1" and u52: "u * 2 ^ 52 \<le> q" unfolding q_def u_def by blast
  define P :: rat where "P = 2 ^ j"
  have Ppos: "0 < P" by (simp add: P_def)
  from j have uP: "u = 1 / P" using Ppos by (simp add: P_def field_simps)
  define M where "M = round_half_even (q * P)"
  have fl: "float64_nearest q = of_int M / P"
    by (simp add: float64_nearest_def u_def [symmetric] uP M_def)
  have near: "\<bar>of_int M - q * P\<bar> \<le> 1 / 2" unfolding M_def by (rule round_half_even_near)
  have bpos: "(0::rat) < of_int b" using assms by simp
  have qK: "q \<le> of_int K" "of_int K - 1 < q" unfolding K_def by linarith+
  have KP: "of_int K * P = of_int (K * 2 ^ j)" by (simp add: P_def)
  have "q * P \<le> of_int K * P" using qK(1) Ppos by (simp add: mult_right_mono)
  with near have "of_int M < of_int K * P + 1" by linarith
  then have "of_int M < (of_int (K * 2 ^ j + 1) :: rat)" by (simp add: P_def)
  then have "M < K * 2 ^ j + 1" by (simp only: of_int_less_iff)
  then have "M \<le> K * 2 ^ j" by simp
  then have "(of_int M :: rat) \<le> of_int (K * 2 ^ j)" by (simp only: of_int_le_iff)
  then have "of_int M \<le> of_int K * P" by (simp only: KP)
  then have upper: "of_int M / P \<le> of_int K" using Ppos by (simp add: pos_divide_le_eq)
  from qK(2) have "(of_int K - 1) * of_int b < (of_int a :: rat)"
    using bpos by (simp add: q_def pos_less_divide_eq)
  then have "(of_int ((K - 1) * b) :: rat) < of_int a" by simp
  then have "(K - 1) * b < a" by (simp only: of_int_less_iff)
  then have "(K - 1) * b + 1 \<le> a" by simp
  then have "(of_int ((K - 1) * b + 1) :: rat) \<le> of_int a" by (simp only: of_int_le_iff)
  then have "(of_int K - 1) * of_int b + 1 \<le> (of_int a :: rat)" by simp
  then have "((of_int K - 1) * of_int b + 1) / of_int b \<le> q"
    using bpos by (simp add: q_def divide_right_mono)
  then have gap: "of_int K - 1 + 1 / of_int b \<le> q"
    using bpos by (simp add: add_divide_distrib)
  have bq: "of_int b * q = (of_int a :: rat)" using bpos by (simp add: q_def)
  have "of_int b * (u * 2 ^ 52) \<le> of_int b * q"
    using u52 bpos by (rule_tac mult_left_mono) simp_all
  then have le: "(of_int b * u) * 2 ^ 52 \<le> of_int a" unfolding bq by (simp only: mult.assoc)
  have "(of_int a :: rat) < of_int (2 ^ 53)" using assms(2) by (simp only: of_int_less_iff)
  then have "(of_int a :: rat) < 2 * 2 ^ 52" by simp
  with le have "(of_int b * u) * 2 ^ 52 < (2::rat) * 2 ^ 52" by (rule le_less_trans)
  then have "of_int b * u < 2" by (simp only: mult_less_cancel_right_pos zero_less_power zero_less_numeral)
  then have "of_int b < 2 * P" using Ppos by (simp add: uP pos_divide_less_eq)
  then have half: "1 / 2 < P / of_int b" using bpos by (simp add: pos_less_divide_eq)
  have "(of_int K - 1 + 1 / of_int b) * P \<le> q * P" using gap Ppos by (simp add: mult_right_mono)
  then have "(of_int K - 1) * P + P / of_int b \<le> q * P" by (simp add: distrib_right)
  with half near have "(of_int K - 1) * P < of_int M" by linarith
  then have lower: "of_int K - 1 < of_int M / P" using Ppos by (simp add: pos_less_divide_eq)
  from lower upper show ?thesis unfolding q_def [symmetric] fl K_def by simp
qed

lemma ceiling_quotient:
  fixes samples bs :: int
  assumes "0 < bs"
  shows "\<lceil>(of_int samples :: rat) / of_int bs\<rceil> = (samples + bs - 1) div bs"
proof -
  let ?q = "(samples + bs - 1) div bs"
  have bpos: "(0::rat) < of_int bs" using assms by simp
  have lo: "(?q - 1) * bs < samples"
    using int_div_bounds(1) [OF assms, of "samples + bs - 1"] by (simp add: algebra_simps)
  have hi: "samples \<le> ?q * bs"
    using int_div_bounds(2) [OF assms, of "samples + bs - 1"] by (simp add: algebra_simps)
  show ?thesis
  proof (rule ceiling_unique)
    from lo have "(of_int ((?q - 1) * bs) :: rat) < of_int samples" by (simp only: of_int_less_iff)
    then have "(of_int ?q - 1) * (of_int bs :: rat) < of_int samples" by simp
    then show "of_int ?q - 1 < (of_int samples :: rat) / of_int bs"
      using bpos by (simp add: pos_less_divide_eq)
    from hi have "(of_int samples :: rat) \<le> of_int (?q * bs)" by (simp only: of_int_le_iff)
    then have "(of_int samples :: rat) \<le> of_int ?q * of_int bs" by simp
    then show "(of_int samples :: rat) / of_int bs \<le> of_int ?q"
      using bpos by (simp add: pos_divide_le_eq)
  qed
qed

lemma int_truediv_ceiling:
  fixes a b :: int
  assumes "0 < a" "a < 2 ^ 53" "0 < b" "b < 2 ^ 53"
  shows "\<exists>r. int_truediv a b = Inr r \<and> \<lceil>r\<rceil> = \<lceil>(of_int a :: rat) / of_int b\<rceil>"
proof -
  define q :: rat where "q = of_int a / of_int b"
  define r where "r = float64_nearest q"
  have qpos: "0 < q" using assms by (simp add: q_def)
  from float64_nearest_ceiling [OF assms]
  have lo: "of_int \<lceil>q\<rceil> - 1 < r" and hi: "r \<le> of_int \<lceil>q\<rceil>"
    unfolding q_def r_def by blast+
  then have c: "\<lceil>r\<rceil> = \<lceil>q\<rceil>" by (simp only: ceiling_unique)
  have "q \<le> of_int a"
  proof -
    have "(1::rat) \<le> of_int b" using assms(3) by simp
    moreover have "(0::rat) < of_int a" using assms(1) by simp
    ultimately have "of_int a * 1 \<le> (of_int a :: rat) * of_int b" by (simp only: mult_le_cancel_left_pos)
    then show ?thesis using assms(3) by (simp add: q_def pos_divide_le_eq)
  qed
  then have "\<lceil>q\<rceil> \<le> a" by (simp only: ceiling_le_iff)
  then have "\<lceil>q\<rceil> < 2 ^ 53" using assms(2) by (rule le_less_trans)
  then have "(of_int \<lceil>q\<rceil> :: rat) < of_int (2 ^ 53)" by (simp only: of_int_less_iff)
  then have "(of_int \<lceil>q\<rceil> :: rat) < 2 ^ 53" by simp
  moreover have "(2::rat) ^ 53 \<le> 2 ^ 1024" by (rule power_increasing) simp_all
  ultimately have "r < 2 ^ 1024" using hi by linarith
  then have nov: "\<not> 2 ^ 1024 \<le> r" by simp
  have ab: "\<bar>q\<bar> = q" using qpos by simp
  have nz: "b \<noteq> 0" using assms(3) by simp
  have nn: "\<not> q < 0" using qpos by simp
  have "int_truediv a b = Inr r"
    unfolding int_truediv_def Let_def q_def [symmetric] ab r_def [symmetric]
    using nz nov nn by (simp only: if_False)
  with c show ?thesis unfolding q_def by blast
qed

lemma steps_formula:
  assumes "0 < samples" "samples < 2 ^ 53" "0 < bs" "bs < 2 ^ 53"
  shows "steps_per_epoch samples bs = Inr ((samples + bs - 1) div bs)"
proof -
  from int_truediv_ceiling [OF assms] obtain r where
    r: "int_truediv samples bs = Inr r" "\<lceil>r\<rceil> = \<lceil>(of_int samples :: rat) / of_int bs\<rceil>" by blast
  then show ?thesis
    unfolding steps_per_epoch_def r(1) sum.case r(2) ceiling_quotient [OF assms(3)] by simp
qed

lemma float64_nearest_overflow: "float64_nearest (2 ^ 1024) = 2 ^ 1024"
proof -
  have one: "(1::rat) \<le> 2 ^ 1024" by (rule one_le_power) simp
  from ulp_up_spec [OF one, of "1 / 2 ^ 52"] obtain n where
    n: "ulp_up (2 ^ 1024) (1 / 2 ^ 52) = 1 / 2 ^ 52 * 2 ^ n"
       "(2::rat) ^ n \<le> 2 ^ 1024" "(2::rat) ^ 1024 < 2 ^ Suc n" by blast
  from n(2) have "n \<le> 1024" by (simp only: power_increasing_iff one_less_numeral_iff semiring_norm)
  moreover from n(3) have "1024 < Suc n"
    by (simp only: power_strict_increasing_iff one_less_numeral_iff semiring_norm)
  ultimately have "n = 1024" by simp
  with n(1) have u: "float64_ulp (2 ^ 1024) = 2 ^ 1024 / 2 ^ 52"
    using one by (simp add: float64_ulp_def)
  have q: "(2::rat) ^ 1024 / (2 ^ 1024 / 2 ^ 52) = of_int (2 ^ 52)" by simp
  have r: "round_half_even (of_int (2 ^ 52)) = 2 ^ 52"
    unfolding round_half_even_def Let_def floor_of_int by simp
  show ?thesis unfolding float64_nearest_def u q r by simp
qed

lemma steps_per_epoch_overflow: "steps_per_epoch (2 ^ 1024) 1 = Inl OverflowError"
proof -
  have "int_truediv (2 ^ 1024) 1 = Inl OverflowError"
    unfolding int_truediv_def Let_def using float64_nearest_overflow by simp
  then show ?thesis by (simp add: steps_per_epoch_def)
qed

lemma train_step_reset:
  "train_step K (reset_metrics m) b =
     (train_step K m b)\<lparr>metric_state := [observe K b (extractor_weights m, head_weights m)]\<rparr>"
  by (simp add: train_step_def reset_metrics_def split: prod.splits)

lemma reset_train_step:
  "reset_metrics ((train_step K m b)\<lparr>metric_state := ms\<rparr>) = reset_metrics (train_step K m b)"
  by (simp add: reset_metrics_def)

lemma callback_after_step:
  "on_train_batch_end (self, train_step K (reset_metrics m) b) step
       (Some (logs_of K (train_step K (reset_metrics m) b)))
   = Inr (self\<lparr>batch_losses := batch_losses self
                    @ [loss_result K [observe K b (extractor_weights m, head_weights m)]],
               batch_acc := batch_acc self
                    @ [acc_result K [observe K b (extractor_weights m, head_weights m)]]\<rparr>,
          reset_metrics (train_step K m b))"
  by (simp add: on_train_batch_end_def logs_of_def train_step_reset reset_train_step)

lemma train_epoch_result:
  "train_epoch K tb first [s ..< s + n] (self, reset_metrics (model_after K tb m0 (first + s)))
   = Inr (self\<lparr>batch_losses := batch_losses self
                    @ map (\<lambda>i. loss_result K [single_batch_obs K tb m0 i]) [first + s ..< first + s + n],
               batch_acc := batch_acc self
                    @ map (\<lambda>i. acc_result K [single_batch_obs K tb m0 i]) [first + s ..< first + s + n]\<rparr>,
          reset_metrics (model_after K tb m0 (first + s + n)))"
proof (induction n arbitrary: s self)
  case 0
  show ?case by simp
next
  case (Suc n)
  have l: "[s ..< s + Suc n] = s # [Suc s ..< Suc s + n]"
    by (simp add: upt_conv_Cons)
  have r: "[first + s ..< first + s + Suc n] = (first + s) # [first + Suc s ..< first + Suc s + n]"
    by (simp add: upt_conv_Cons)
  show ?case
    unfolding l r
    using Suc.IH [of "Suc s"]
    by (simp add: callback_after_step single_batch_obs_def)
qed


lemma reset_metrics_idem: "reset_metrics (reset_metrics m) = reset_metrics m"
  by (simp add: reset_metrics_def)

lemma upt_epochs: "[e * steps ..< (e + Suc n) * steps]
    = [e * steps ..< e * steps + steps] @ [Suc e * steps ..< (Suc e + n) * steps]"
proof -
  have "(e + Suc n) * steps = e * steps + steps + n * steps" by (simp add: algebra_simps)
  moreover have "Suc e * steps = e * steps + steps" by simp
  moreover have "(Suc e + n) * steps = e * steps + steps + n * steps" by (simp add: algebra_simps)
  ultimately show ?thesis
    by (metis le_add1 upt_add_eq_append)
qed

lemma fit_epochs_result:
  assumes "reset_metrics model = reset_metrics (model_after K tb m0 (e * steps))"
  shows "\<exists>model'. fit_epochs K tb steps [e ..< e + n] (self, model)
     = Inr (self\<lparr>batch_losses := batch_losses self
                    @ map (\<lambda>i. loss_result K [single_batch_obs K tb m0 i]) [e * steps ..< (e + n) * steps],
                 batch_acc := batch_acc self
                    @ map (\<lambda>i. acc_result K [single_batch_obs K tb m0 i]) [e * steps ..< (e + n) * steps]\<rparr>,
            model')
     \<and> reset_metrics model' = reset_metrics (model_after K tb m0 ((e + n) * steps))
     \<and> metric_state model' = (if n = 0 then metric_state model else [])"
  using assms
proof (induction n arbitrary: e self model)
  case 0
  then show ?case by simp
next
  case (Suc n)
  have l: "[e ..< e + Suc n] = e # [Suc e ..< Suc e + n]"
    by (simp add: upt_conv_Cons)
  let ?self1 = "self\<lparr>batch_losses := batch_losses self
                    @ map (\<lambda>i. loss_result K [single_batch_obs K tb m0 i]) [e * steps ..< e * steps + steps],
                 batch_acc := batch_acc self
                    @ map (\<lambda>i. acc_result K [single_batch_obs K tb m0 i]) [e * steps ..< e * steps + steps]\<rparr>"
  let ?model1 = "reset_metrics (model_after K tb m0 (Suc e * steps))"
  have ep: "train_epoch K tb (e * steps) [0 ..< steps] (self, reset_metrics model)
      = Inr (?self1, ?model1)"
    using train_epoch_result [of K tb "e * steps" 0 steps self m0] Suc.prems
    by (simp add: add.commute)
  have "reset_metrics ?model1 = reset_metrics (model_after K tb m0 (Suc e * steps))"
    by (rule reset_metrics_idem)
  from Suc.IH [OF this, of ?self1] obtain model' where
    rest: "fit_epochs K tb steps [Suc e ..< Suc e + n] (?self1, ?model1)
      = Inr (?self1\<lparr>batch_losses := batch_losses ?self1
                    @ map (\<lambda>i. loss_result K [single_batch_obs K tb m0 i]) [Suc e * steps ..< (Suc e + n) * steps],
                 batch_acc := batch_acc ?self1
                    @ map (\<lambda>i. acc_result K [single_batch_obs K tb m0 i]) [Suc e * steps ..< (Suc e + n) * steps]\<rparr>,
            model')"
    and w: "reset_metrics model' = reset_metrics (model_after K tb m0 ((Suc e + n) * steps))"
    and ms: "metric_state model' = (if n = 0 then metric_state ?model1 else [])"
    by blast
  have ms': "metric_state model' = []"
    using ms by (simp add: reset_metrics_def)
  have w': "reset_metrics model' = reset_metrics (model_after K tb m0 ((e + Suc n) * steps))"
    using w by simp
  have "fit_epochs K tb steps [e ..< e + Suc n] (self, model)
     = Inr (self\<lparr>batch_losses := batch_losses self
                    @ map (\<lambda>i. loss_result K [single_batch_obs K tb m0 i]) [e * steps ..< (e + Suc n) * steps],
                 batch_acc := batch_acc self
                    @ map (\<lambda>i. acc_result K [single_batch_obs K tb m0 i]) [e * steps ..< (e + Suc n) * steps]\<rparr>,
            model')"
    unfolding l upt_epochs using ep rest by simp
  with w' ms' show ?case by simp
qed

lemma fit_result:
  "\<exists>model'. fit K model tb epochs steps callback
     = Inr (callback\<lparr>batch_losses := batch_losses callback
                    @ map (\<lambda>i. loss_result K [single_batch_obs K tb model i]) [0 ..< epochs * steps],
                 batch_acc := batch_acc callback
                    @ map (\<lambda>i. acc_result K [single_batch_obs K tb model i]) [0 ..< epochs * steps]\<rparr>,
            model')
     \<and> reset_metrics model' = reset_metrics (model_after K tb model (epochs * steps))
     \<and> metric_state model' = (if epochs = 0 then metric_state model else [])"
  using fit_epochs_result [of model K tb model 0 steps epochs callback]
  by (simp add: fit_def)

text \<open>With 4000 training samples, cell 19 runs 3 epochs of 125 steps.\<close>

lemma training_cell_notebook:
  "training_cell K model train_batches 4000 32 = fit K model train_batches 3 125 CollectBatchStats_init"
  using steps_formula [of 4000 32] by (simp add: training_cell_def)

lemma frozen_model_after:
  "\<not> extractor_trainable m \<Longrightarrow>
   extractor_weights (model_after K tb m n) = extractor_weights m \<and>
   \<not> extractor_trainable (model_after K tb m n)"
  by (induction n) (auto simp: train_step_def split: prod.splits)

lemma reset_keeps_extractor:
  "reset_metrics a = reset_metrics b \<Longrightarrow> extractor_weights a = extractor_weights b"
  by (metis (no_types) reset_metrics_def keras_model.select_convs(1) keras_model.surjective keras_model.update_convs(5))

subsection \<open>The evaluation loop\<close>

lemma render_sample_ok:
  assumes "n < BATCH_SIZE" "n < length image_batch" "n < length predicted_id"
    "n < length label_id" "n < length predicted_label_batch"
    "label_id ! n < length class_names"
  shows "\<exists>a. render_sample class_names image_batch predicted_id predicted_label_batch label_id n
           = Inr a \<and> cell a = n + 1"
  using assms
  by (simp add: render_sample_def subplot_def getitem_def title_var_def BATCH_SIZE_def Let_def)

lemma render_samples_ok:
  assumes "list_all (\<lambda>n. n < BATCH_SIZE \<and> n < length image_batch \<and> n < length predicted_id \<and>
             n < length label_id \<and> n < length predicted_label_batch \<and>
             label_id ! n < length class_names) ns"
  shows "\<exists>as. render_samples class_names image_batch predicted_id predicted_label_batch label_id ns
           = Inr as \<and> map cell as = map Suc ns"
  using assms
proof (induction ns)
  case Nil
  then show ?case by simp
next
  case (Cons n ns)
  then obtain as where as: "render_samples class_names image_batch predicted_id
       predicted_label_batch label_id ns = Inr as" "map cell as = map Suc ns" by auto
  from Cons.prems obtain a where "render_sample class_names image_batch predicted_id
       predicted_label_batch label_id n = Inr a" "cell a = n + 1"
    using render_sample_ok [of n image_batch predicted_id label_id predicted_label_batch class_names]
    by auto
  with as show ?case by simp
qed

lemma rows_nonempty: "list_all (\<lambda>row. row \<noteq> [] \<and> length row \<le> m) rows \<Longrightarrow> list_all (\<lambda>row. row \<noteq> []) rows"
  by (induction rows) simp_all

lemma render_batch_ok:
  fixes predict :: "'img list \<Rightarrow> 'p::linorder list list" and b :: "('img, 'l::linorder) batch"
  assumes "batch_ok predict class_names b"
  shows "\<exists>fig. render_batch predict class_names batch_count b = Inr fig \<and>
           map cell (grid fig) = map Suc [0 ..< length (fst b)]"
proof -
  obtain image_batch label_batch where b: "b = (image_batch, label_batch)" by (cases b)
  from assms b have len: "length image_batch \<le> BATCH_SIZE"
      "length label_batch = length image_batch"
      "length (predict image_batch) = length image_batch"
    and prow: "list_all (\<lambda>row. row \<noteq> [] \<and> length row \<le> length class_names) (predict image_batch)"
    and lrow: "list_all (\<lambda>row. row \<noteq> [] \<and> length row \<le> length class_names) label_batch"
    by (simp_all add: batch_ok_def)
  from argmax_rows_ok [OF rows_nonempty [OF prow]] obtain predicted_id where
    p: "argmax_rows (predict image_batch) = Inr predicted_id"
       "length predicted_id = length (predict image_batch)"
       "\<forall>k < length (predict image_batch). predicted_id ! k < length (predict image_batch ! k)"
    by blast
  from argmax_rows_ok [OF rows_nonempty [OF lrow]] obtain label_id where
    l: "argmax_rows label_batch = Inr label_id"
       "length label_id = length label_batch"
       "\<forall>k < length label_batch. label_id ! k < length (label_batch ! k)"
    by blast
  have pin: "\<forall>k < length predicted_id. predicted_id ! k < length class_names"
  proof (intro allI impI)
    fix k assume k: "k < length predicted_id"
    with p have "predicted_id ! k < length (predict image_batch ! k)" by simp
    moreover from prow k p have "length (predict image_batch ! k) \<le> length class_names"
      by (simp add: list_all_length)
    ultimately show "predicted_id ! k < length class_names" by simp
  qed
  have lin: "\<forall>k < length label_id. label_id ! k < length class_names"
  proof (intro allI impI)
    fix k assume k: "k < length label_id"
    with l have "label_id ! k < length (label_batch ! k)" by simp
    moreover from lrow k l have "length (label_batch ! k) \<le> length class_names"
      by (simp add: list_all_length)
    ultimately show "label_id ! k < length class_names" by simp
  qed
  from pin have t: "take_indices class_names predicted_id
      = Inr (map (\<lambda>i. class_names ! i) predicted_id)"
    by (intro take_indices_ok) (simp add: list_all_length)
  have "list_all (\<lambda>n. n < BATCH_SIZE \<and> n < length image_batch \<and> n < length predicted_id \<and>
             n < length label_id \<and> n < length (map (\<lambda>i. class_names ! i) predicted_id) \<and>
             label_id ! n < length class_names) [0 ..< length image_batch]"
    using len p(2) l(2) lin by (simp add: list_all_length)
  from render_samples_ok [OF this] obtain as where
    rs: "render_samples class_names image_batch predicted_id (map (\<lambda>i. class_names ! i) predicted_id)
       label_id [0 ..< length image_batch] = Inr as"
    and cells: "map cell as = map Suc [0 ..< length image_batch]" by blast
  let ?fig = "\<lparr>suptitle =
                 (if image_batch = [] then None
                  else Some (''Model predictions (green: correct, red: incorrect) for batch ''
                             @ str_nat batch_count)),
               grid = as\<rparr>"
  have "render_batch predict class_names batch_count (image_batch, label_batch) = Inr ?fig"
    unfolding render_batch_def prod.case p(1) t l(1) rs sum.case ..
  moreover have "map cell (grid ?fig) = map Suc [0 ..< length (fst (image_batch, label_batch))]"
    unfolding fst_conv using cells by (simp del: map_Suc_upt)
  ultimately show ?thesis unfolding b by blast
qed

lemma argmax_rows_error: "argmax_rows rows = Inl e \<Longrightarrow> e = ArgmaxOfEmpty"
  by (induction rows arbitrary: e) (auto simp: argmax_def split: sum.splits list.splits)

lemma take_indices_error: "take_indices xs ids = Inl e \<Longrightarrow> e = IndexError"
  by (induction ids arbitrary: e) (auto simp: getitem_def split: sum.splits if_splits)

text \<open>
  What a pass of the inner loop draws when it succeeds: the image, the predicted class
  name, green for a right prediction and red for a wrong one.
\<close>

lemma render_sample_draws:
  assumes "render_sample class_names image_batch predicted_id predicted_label_batch label_id n
             = Inr a"
  shows "shown a = image_batch ! n \<and>
         title_text a = str_title (predicted_label_batch ! n) \<and>
         title_color a = (if predicted_id ! n = label_id ! n then ''green'' else ''red'')"
  using assms
  by (auto simp: render_sample_def subplot_def getitem_def Let_def split: sum.splits if_splits)

lemma render_sample_cell:
  "render_sample class_names image_batch predicted_id predicted_label_batch label_id n = Inr a
   \<Longrightarrow> cell a = n + 1"
  by (auto simp: render_sample_def subplot_def Let_def split: sum.splits if_splits)

lemma render_sample_error:
  "render_sample class_names image_batch predicted_id predicted_label_batch label_id n = Inl e
   \<Longrightarrow> e = IndexError \<or> (e = SubplotOutOfRange \<and> 8 * 4 < n + 1)"
  by (auto simp: render_sample_def subplot_def getitem_def title_var_def Let_def
      split: sum.splits if_splits)

lemma render_samples_cells:
  "render_samples class_names image_batch predicted_id predicted_label_batch label_id ns = Inr as
   \<Longrightarrow> map cell as = map Suc ns"
proof (induction ns arbitrary: as)
  case Nil
  then show ?case by simp
next
  case (Cons n ns)
  then show ?case
    by (auto split: sum.splits dest: render_sample_cell)
qed

lemma render_samples_error:
  "render_samples class_names image_batch predicted_id predicted_label_batch label_id ns = Inl e
   \<Longrightarrow> e = IndexError \<or> (e = SubplotOutOfRange \<and> (\<exists>n \<in> set ns. 8 * 4 < n + 1))"
proof (induction ns)
  case Nil
  then show ?case by simp
next
  case (Cons n ns)
  then show ?case
    by (auto split: sum.splits dest: render_sample_error)
qed

text \<open>
  The class names of the evaluation cell are the class list of the loader in title case,
  in the order of the list: the index of a label names the class it was made from.
\<close>

lemma class_names_of_loader:
  "class_names_of (class_indices args) = map str_title (classes args)"
proof -
  let ?z = "zip (classes args) [0 ..< length (classes args)]"
  have "map snd ?z = [0 ..< length (classes args)]" by simp
  then have "sorted (map snd ?z)" by (simp only: sorted_upt)
  then have "sort_key snd ?z = ?z" by (rule sort_key_id_if_sorted)
  moreover have "map (\<lambda>(key, val). str_title key) ?z = map str_title (map fst ?z)"
    by (simp only: map_map comp_def case_prod_unfold)
  moreover have "map fst ?z = classes args" by simp
  ultimately have "map (\<lambda>(key, val). str_title key) (sort_key snd ?z)
      = map str_title (classes args)" by (simp only:)
  then show ?thesis by (simp only: class_names_of_def class_indices_def)
qed

lemma demo_class_names: "class_names_of demo_items = [''01_Tumor'', ''02_Stroma'']"
  by code_simp

lemma demo_samples:
  "directory_samples (val_data_gen_args demo_dir) demo_files_of
     = [(''t1.tif'', 0), (''t2.tif'', 0), (''s1.tif'', 1)]"
  "directory_samples (train_data_gen_args demo_dir) demo_files_of
     = [(''t1.tif'', 0), (''t2.tif'', 0), (''s1.tif'', 1)]"
  by code_simp+

lemma chunks_short:
  assumes "xs \<noteq> []" and "length xs \<le> n"
  shows "chunks n xs = [xs]"
proof -
  from assms have "0 < n" by (cases xs) auto
  with assms show ?thesis by (subst chunks.simps, subst chunks.simps) auto
qed

lemma chunks_nth:
  "k < length (chunks n xs) \<Longrightarrow> chunks n xs ! k = take n (drop (n * k) xs)"
proof (induction n xs arbitrary: k rule: chunks.induct)
  case (1 n xs)
  show ?case
  proof (cases "n = 0 \<or> xs = []")
    case True
    then have "chunks n xs = []" by (subst chunks.simps) simp
    with "1.prems" show ?thesis by simp
  next
    case False
    then have eq: "chunks n xs = take n xs # chunks n (drop n xs)"
      by (subst chunks.simps) simp
    show ?thesis
    proof (cases k)
      case 0
      with eq show ?thesis by simp
    next
      case (Suc k')
      with "1.prems" eq have "k' < length (chunks n (drop n xs))" by simp
      with "1.IH" False have "chunks n (drop n xs) ! k' = take n (drop (n * k') (drop n xs))"
        by blast
      with eq Suc show ?thesis by (simp add: add.commute)
    qed
  qed
qed

lemma decode_resize_shape: "has_shape (decode_resize decode resample f (h, w)) h w 3"
  by (auto simp: decode_resize_def has_shape_def list_all_iff split: prod.splits)

lemma decode_resize_nth:
  "i < h \<Longrightarrow> j < w \<Longrightarrow>
   decode_resize decode resample f (h, w) ! i ! j
     = (case resample (decode f) (h, w) (i, j) of (r, g, b) \<Rightarrow> [r, g, b])"
  by (simp add: decode_resize_def)

lemma standardize_nth:
  assumes "has_shape img h w d" "i < h" "j < w" "c < d"
  shows "standardize gen img ! i ! j ! c = of_nat (unat (img ! i ! j ! c)) * rescale gen"
proof -
  from assms(1,2) have li: "i < length img" by (simp add: has_shape_def)
  then have "img ! i \<in> set img" by simp
  with assms(1) have row: "length (img ! i) = w" "list_all (\<lambda>px. length px = d) (img ! i)"
    by (simp_all add: has_shape_def list_all_iff)
  from row(1) assms(3) have lj: "j < length (img ! i)" by simp
  then have "img ! i ! j \<in> set (img ! i)" by simp
  with row(2) have "length (img ! i ! j) = d" by (simp add: list_all_iff)
  with assms(4) have lc: "c < length (img ! i ! j)" by simp
  from li lj lc show ?thesis by (simp add: standardize_def del: of_nat_unat)
qed

lemma validation_training_partition:
  "validation_files gen files @ training_files gen files = files"
  by (simp add: validation_files_def training_files_def)

lemma demo_val_order_chunks:
  "length demo_val_order = 72"
  "map length (chunks 32 demo_val_order) = [32, 32, 8]"
  "fst (demo_val_order ! 71) = 215"
  by code_simp+


lemma demo_pixel:
  "i < 224 \<Longrightarrow> j < 224 \<Longrightarrow>
   decode_resize (\<lambda>f. f) demo_resample f (224, 224) ! i ! j = [word_of_nat i, word_of_nat j, 255]"
  by (simp add: decode_resize_nth demo_resample_def)

lemma demo_history:
  "map (\<lambda>n. loss_result demo_keras [single_batch_obs demo_keras (\<lambda>n. n) demo_model n]) [0 ..< 2 * 2]
     = [7, 9, 12, 16]"
  "map (\<lambda>n. acc_result demo_keras [single_batch_obs demo_keras (\<lambda>n. n) demo_model n]) [0 ..< 2 * 2]
     = [1, 1, 1, 1]"
  by code_simp+

section \<open>The claims\<close>

subsection \<open>The dataset indexer\<close>

text \<open>
  Claim C8, as stated, fails: the class names are said to be exactly the names of the
  immediate subdirectories of the root. In a root that holds the directory
  \<open>01_TUMOR\<close>, a regular file \<open>notes.txt\<close> and the license file, \<open>CLASS_NAMES\<close>
  contains \<open>notes.txt\<close>, which is not a subdirectory: the comprehension filters by name
  only and never asks whether an entry is a directory.
\<close>

theorem CLASS_NAMES_lists_files_too:
  "set (CLASS_NAMES [(''01_TUMOR'', Directory), (''notes.txt'', RegularFile),
                     (''LICENSE.txt'', RegularFile)])
   \<noteq> set (subdirectories [(''01_TUMOR'', Directory), (''notes.txt'', RegularFile),
                           (''LICENSE.txt'', RegularFile)])"
  by (simp add: CLASS_NAMES_def subdirectories_def)

text \<open>
  Claim C8, amended: \<open>CLASS_NAMES\<close> is the names of all immediate entries of the root,
  regular files and subdirectories alike and in listing order, except the entries named
  \<open>LICENSE.txt\<close>; when the entries named \<open>LICENSE.txt\<close> are exactly the entries of
  the root that are not directories, it is exactly the names of the subdirectories.
\<close>

theorem CLASS_NAMES_all_but_license:
  "CLASS_NAMES data_dir = filter (\<lambda>name. name \<noteq> ''LICENSE.txt'') (map fst data_dir) \<and>
   ((\<forall>e \<in> set data_dir. (snd e = Directory) = (fst e \<noteq> ''LICENSE.txt'')) \<longrightarrow>
      CLASS_NAMES data_dir = subdirectories data_dir)"
  unfolding CLASS_NAMES_def subdirectories_def
  by (induction data_dir) auto

text \<open>The amended claim C8 at the root with two class directories and the license file.\<close>

theorem CLASS_NAMES_all_but_license_witness:
  "CLASS_NAMES demo_dir = [''01_TUMOR'', ''02_STROMA''] \<and> CLASS_NAMES demo_dir = subdirectories demo_dir"
proof -
  have h: "\<forall>e \<in> set demo_dir. (snd e = Directory) = (fst e \<noteq> ''LICENSE.txt'')"
    by (simp add: demo_dir_def)
  from CLASS_NAMES_all_but_license [of demo_dir] h
  have "CLASS_NAMES demo_dir = subdirectories demo_dir" by blast
  moreover have "subdirectories demo_dir = [''01_TUMOR'', ''02_STROMA'']"
    by (simp add: demo_dir_def subdirectories_def)
  ultimately show ?thesis by simp
qed

subsection \<open>The step count\<close>

text \<open>
  Claim C7, as stated, fails: the step count is said to be the ceiling of samples divided
  by batch size for every positive sample count and batch size. The quotient is rounded
  to a double before \<open>np.ceil\<close> sees it: with 100000000000000001 samples in batches of
  100000000000000000 the quotient rounds to 1.0 and the step count is 1, while the
  ceiling of the exact quotient is 2.
\<close>

theorem steps_per_epoch_rounds_below_ceiling:
  "steps_per_epoch 100000000000000001 100000000000000000 = Inr 1 \<and>
   \<lceil>(of_int 100000000000000001 :: rat) / of_int 100000000000000000\<rceil> = 2"
  by code_simp

text \<open>
  Claim C7, amended: for every positive sample count and batch size below \<open>2 ^ 53\<close>, the
  step count of cell 19 is the ceiling of samples divided by batch size: the integer \<open>n\<close>
  with \<open>(n - 1) * batch_size < samples \<le> n * batch_size\<close>, which is
  \<open>(samples + batch_size - 1) div batch_size\<close>. The division raises nothing there.
\<close>

theorem steps_per_epoch_is_ceiling:
  assumes "0 < samples" and "samples < 2 ^ 53" and "0 < batch_size'" and "batch_size' < 2 ^ 53"
  shows "\<exists>n. steps_per_epoch samples batch_size' = Inr n \<and>
           n = \<lceil>(of_int samples :: rat) / of_int batch_size'\<rceil> \<and>
           n = (samples + batch_size' - 1) div batch_size' \<and>
           (n - 1) * batch_size' < samples \<and> samples \<le> n * batch_size'"
proof -
  let ?q = "(samples + batch_size' - 1) div batch_size'"
  have lo: "(?q - 1) * batch_size' < samples"
    using int_div_bounds(1) [OF assms(3), of "samples + batch_size' - 1"]
    by (simp add: algebra_simps)
  have hi: "samples \<le> ?q * batch_size'"
    using int_div_bounds(2) [OF assms(3), of "samples + batch_size' - 1"]
    by (simp add: algebra_simps)
  have c: "?q = \<lceil>(of_int samples :: rat) / of_int batch_size'\<rceil>"
    by (rule ceiling_quotient [OF assms(3), symmetric])
  show ?thesis
  proof (rule exI [of _ ?q], intro conjI)
    show "steps_per_epoch samples batch_size' = Inr ?q" by (rule steps_formula [OF assms])
    show "?q = \<lceil>(of_int samples :: rat) / of_int batch_size'\<rceil>" by (rule c)
    show "?q = ?q" by (rule refl)
    show "(?q - 1) * batch_size' < samples" by (rule lo)
    show "samples \<le> ?q * batch_size'" by (rule hi)
  qed
qed

text \<open>
  The amended claim C7 at the notebook's own numbers: 4000 training samples in batches of
  32 give 125 steps.
\<close>

theorem steps_per_epoch_is_ceiling_witness:
  "(0::int) < 4000 \<and> (4000::int) < 2 ^ 53 \<and> (0::int) < 32 \<and> (32::int) < 2 ^ 53 \<and>
   steps_per_epoch 4000 32 = Inr 125 \<and>
   (125 - 1) * 32 < (4000::int) \<and> (4000::int) \<le> 125 * 32"
  using steps_per_epoch_is_ceiling [of 4000 32] by auto

subsection \<open>The evaluation loop\<close>

text \<open>
  Claim C1 fails on the code at its last part. For a sample whose prediction is wrong
  (predicted index 0, true index 1) the text drawn over the image is the predicted class
  name alone, in red: the string with the true class name, \<open>01_Tumor(02_Stroma)\<close>, is
  computed into the local variable \<open>title\<close>, and \<open>plt.title\<close> is then called with
  \<open>predicted_label_batch[n].title()\<close> instead of \<open>title\<close>.
\<close>

theorem true_class_name_not_drawn:
  "render_batch (\<lambda>image_batch. [[9 / 10, 1 / 10 :: rat]])
       (class_names_of [(''01_TUMOR'', 0), (''02_STROMA'', 1)]) 1
       ([''stroma.tif''], [[0, 1 :: rat]])
     = Inr \<lparr>suptitle = Some ''Model predictions (green: correct, red: incorrect) for batch 1'',
            grid = [\<lparr>cell = 1, shown = ''stroma.tif'',
                     title_text = ''01_Tumor'', title_color = ''red''\<rparr>]\<rparr>
   \<and> title_var (class_names_of [(''01_TUMOR'', 0), (''02_STROMA'', 1)]) ''01_Tumor'' 0 1
     = Inr ''01_Tumor(02_Stroma)''"
  by code_simp

text \<open>
  Claim C2: whenever the validation iterator can produce two batches (whatever follows
  them, a third batch, the end of the sequence or a wrap-around), the loop terminates,
  it has rendered exactly two figures, those of the first two batches, no exception was
  raised, and it ended by the \<open>break\<close> at \<open>batch_count == 2\<close>, not by exhausting the
  iterator. The two batches are as the loader and the model provide them (\<open>batch_ok\<close>).
\<close>

theorem eval_loop_two_grids:
  fixes predict :: "'img list \<Rightarrow> 'p::linorder list list"
    and batches :: "nat \<Rightarrow> ('img, 'l::linorder) batch option"
  assumes "batches 0 = Some b1" and "batches 1 = Some b2"
    and "batch_ok predict (class_names_of items) b1"
    and "batch_ok predict (class_names_of items) b2"
  shows "\<exists>fig1 fig2.
           render_batch predict (class_names_of items) 1 b1 = Inr fig1 \<and>
           render_batch predict (class_names_of items) 2 b2 = Inr fig2 \<and>
           evaluation_report predict items batches = Some ([fig1, fig2], Break)"
proof -
  from render_batch_ok [OF assms(3), of 1] obtain fig1 where
    f1: "render_batch predict (class_names_of items) 1 b1 = Inr fig1" by blast
  from render_batch_ok [OF assms(4), of 2] obtain fig2 where
    f2: "render_batch predict (class_names_of items) 2 b2 = Inr fig2" by blast
  have "eval_loop predict (class_names_of items) batches 1 1 [fig1]
          = Some ([fig1, fig2], Break)"
    using assms(2) f2 by (subst eval_loop.simps) (simp add: numeral_2_eq_2)
  then have "eval_loop predict (class_names_of items) batches 0 0 []
          = Some ([fig1, fig2], Break)"
    using assms(1) f1 by (subst eval_loop.simps) simp
  with f1 f2 show ?thesis by (simp add: evaluation_report_def)
qed

text \<open>
  Claim C2 on a validation iterator with three batches available: two figures, then
  \<open>break\<close>, with the third batch never drawn.
\<close>

theorem eval_loop_two_grids_witness:
  "demo_batches 2 \<noteq> None \<and>
   (\<exists>fig1 fig2. evaluation_report demo_predict demo_items demo_batches
       = Some ([fig1, fig2], Break))"
proof -
  have b: "demo_batches 0 = Some ([''tumor.tif'', ''stroma.tif''], [[1, 0], [0, 1]])"
    "demo_batches 1 = Some ([''tumor.tif'', ''stroma.tif''], [[1, 0], [0, 1]])"
    by (simp_all add: demo_batches_def)
  have ok: "batch_ok demo_predict (class_names_of demo_items)
      ([''tumor.tif'', ''stroma.tif''], [[1, 0], [0, 1 :: rat]])"
    by (simp add: demo_class_names batch_ok_def demo_predict_def BATCH_SIZE_def)
  have "demo_batches 2 \<noteq> None" by (simp add: demo_batches_def)
  moreover from eval_loop_two_grids [OF b ok ok]
  have "\<exists>fig1 fig2. evaluation_report demo_predict demo_items demo_batches
       = Some ([fig1, fig2], Break)" by blast
  ultimately show ?thesis by blast
qed

text \<open>
  Claim C10: a batch holds at most \<open>BATCH_SIZE = 32\<close> images, so every index \<open>n + 1\<close>
  that the inner loop passes to \<open>plt.subplot(8, 4, n + 1)\<close> lies in 1..32 and is
  accepted, the batch never fails with the out-of-range error of \<open>subplot\<close>, and the
  cells of a rendered figure are 1 up to the number of images.
\<close>

theorem subplot_index_in_grid:
  fixes predict :: "'img list \<Rightarrow> 'p::linorder list list" and label_batch :: "'l::linorder list list"
  assumes "length image_batch \<le> BATCH_SIZE"
  shows "(\<forall>n < length image_batch. 1 \<le> n + 1 \<and> n + 1 \<le> 32 \<and> subplot 8 4 (n + 1) = Inr (n + 1)) \<and>
         render_batch predict class_names batch_count (image_batch, label_batch)
           \<noteq> Inl SubplotOutOfRange \<and>
         (\<forall>fig. render_batch predict class_names batch_count (image_batch, label_batch) = Inr fig
            \<longrightarrow> map cell (grid fig) = [1 ..< length image_batch + 1])"
proof (intro conjI allI impI)
  fix n assume "n < length image_batch"
  with assms show "1 \<le> n + 1" "n + 1 \<le> 32" "subplot 8 4 (n + 1) = Inr (n + 1)"
    by (simp_all add: BATCH_SIZE_def subplot_def)
next
  show "render_batch predict class_names batch_count (image_batch, label_batch)
           \<noteq> Inl SubplotOutOfRange"
  proof
    assume e: "render_batch predict class_names batch_count (image_batch, label_batch)
           = Inl SubplotOutOfRange"
    then obtain predicted_id predicted_label_batch label_id where
      "render_samples class_names image_batch predicted_id predicted_label_batch label_id
             [0 ..< length image_batch] = Inl SubplotOutOfRange"
      by (auto simp: render_batch_def split: sum.splits
          dest: argmax_rows_error take_indices_error)
    from render_samples_error [OF this] obtain n where "n < length image_batch" "8 * 4 < n + 1"
      by auto
    with assms show False by (simp add: BATCH_SIZE_def)
  qed
next
  fix fig
  assume "render_batch predict class_names batch_count (image_batch, label_batch) = Inr fig"
  then obtain predicted_id predicted_label_batch label_id where
    "render_samples class_names image_batch predicted_id predicted_label_batch label_id
             [0 ..< length image_batch] = Inr (grid fig)"
    by (auto simp: render_batch_def split: sum.splits)
  from render_samples_cells [OF this]
  have "map cell (grid fig) = map Suc [0 ..< length image_batch]" .
  also have "\<dots> = [1 ..< length image_batch + 1]"
    using map_Suc_upt [of 0 "length image_batch"] by simp
  finally show "map cell (grid fig) = [1 ..< length image_batch + 1]" .
qed

text \<open>Claim C10 at a full batch of 32 images: the last index is 32, the last cell of the grid.\<close>

theorem subplot_index_in_grid_witness:
  "length (replicate 32 ''x.tif'') \<le> BATCH_SIZE \<and>
   subplot 8 4 (31 + 1) = Inr (31 + 1) \<and>
   render_batch demo_predict (class_names_of demo_items) 1
       (replicate 32 ''x.tif'', replicate 32 [0, 1 :: rat]) \<noteq> Inl SubplotOutOfRange"
proof -
  have h: "length (replicate 32 ''x.tif'') \<le> BATCH_SIZE" by (simp add: BATCH_SIZE_def)
  note c = subplot_index_in_grid [OF h, of demo_predict "class_names_of demo_items" 1
      "replicate 32 [0, 1 :: rat]"]
  from c have a: "\<forall>n < length (replicate 32 ''x.tif'').
      1 \<le> n + 1 \<and> n + 1 \<le> 32 \<and> subplot 8 4 (n + 1) = Inr (n + 1)" by blast
  have "(31::nat) < length (replicate 32 ''x.tif'')" by simp
  with a have "subplot 8 4 (31 + 1) = Inr (31 + 1)" by blast
  moreover from c have "render_batch demo_predict (class_names_of demo_items) 1
       (replicate 32 ''x.tif'', replicate 32 [0, 1 :: rat]) \<noteq> Inl SubplotOutOfRange" by blast
  ultimately show ?thesis using h by blast
qed

subsection \<open>The training run\<close>

text \<open>
  Claim C3: the run never fails in the callback, and after it the two histories are the
  old histories followed by one entry per processed batch, in the order of processing:
  the value of the loss (accuracy) metric on the single observation of that batch, taken
  with the weights the model had when the batch arrived. The old entries are kept
  (append-only), no entry aggregates several batches, and the metric accumulation is empty
  after every call of the callback.
\<close>

theorem batch_stats_record_single_batches:
  "\<exists>model'. fit K model train_batches epochs steps callback
      = Inr (callback\<lparr>batch_losses := batch_losses callback
                 @ map (\<lambda>n. loss_result K [single_batch_obs K train_batches model n])
                     [0 ..< epochs * steps],
               batch_acc := batch_acc callback
                 @ map (\<lambda>n. acc_result K [single_batch_obs K train_batches model n])
                     [0 ..< epochs * steps]\<rparr>,
             model')
      \<and> metric_state model' = (if epochs = 0 then metric_state model else [])"
  using fit_result [of K model train_batches epochs steps callback] by blast

text \<open>
  Claim C3 on a run of 2 epochs of 2 steps with a metric that sums its observations: the
  recorded losses are the four single-batch values 7, 9, 12, 16, not running sums.
\<close>

theorem batch_stats_record_single_batches_witness:
  "\<exists>model'. fit demo_keras demo_model (\<lambda>n. n) 2 2 CollectBatchStats_init
      = Inr (\<lparr>batch_losses = [7, 9, 12, 16], batch_acc = [1, 1, 1, 1]\<rparr>, model')"
proof -
  from batch_stats_record_single_batches [of demo_keras demo_model "\<lambda>n. n" 2 2
      CollectBatchStats_init]
  obtain model' where "fit demo_keras demo_model (\<lambda>n. n) 2 2 CollectBatchStats_init
      = Inr (CollectBatchStats_init\<lparr>batch_losses := batch_losses CollectBatchStats_init
                 @ map (\<lambda>n. loss_result demo_keras [single_batch_obs demo_keras (\<lambda>n. n) demo_model n])
                     [0 ..< 2 * 2],
               batch_acc := batch_acc CollectBatchStats_init
                 @ map (\<lambda>n. acc_result demo_keras [single_batch_obs demo_keras (\<lambda>n. n) demo_model n])
                     [0 ..< 2 * 2]\<rparr>,
             model')" by blast
  then have "fit demo_keras demo_model (\<lambda>n. n) 2 2 CollectBatchStats_init
      = Inr (\<lparr>batch_losses = [7, 9, 12, 16], batch_acc = [1, 1, 1, 1]\<rparr>, model')"
    unfolding demo_history by (simp add: CollectBatchStats_init_def)
  then show ?thesis by blast
qed

text \<open>
  Claim C9: a run of 0 epochs returns the model (and the callback) as they were, and a
  run of any number of epochs on a model whose extractor is not trainable ends with the
  extractor weights it started with.
\<close>

theorem fit_frame:
  "fit K model train_batches 0 steps callback = Inr (callback, model) \<and>
   (\<not> extractor_trainable model \<longrightarrow>
      (\<exists>callback' model'. fit K model train_batches epochs steps callback = Inr (callback', model')
          \<and> extractor_weights model' = extractor_weights model))"
proof (intro conjI impI)
  show "fit K model train_batches 0 steps callback = Inr (callback, model)"
    by (simp add: fit_def)
next
  assume frozen: "\<not> extractor_trainable model"
  from fit_result [of K model train_batches epochs steps callback] obtain callback' model' where
    r: "fit K model train_batches epochs steps callback = Inr (callback', model')"
    and w: "reset_metrics model' = reset_metrics (model_after K train_batches model (epochs * steps))"
    by blast
  from reset_keeps_extractor [OF w] frozen_model_after [OF frozen, of K train_batches "epochs * steps"]
  have "extractor_weights model' = extractor_weights model" by simp
  with r show "\<exists>callback' model'. fit K model train_batches epochs steps callback = Inr (callback', model')
          \<and> extractor_weights model' = extractor_weights model" by blast
qed

text \<open>
  Claim C9 on a frozen extractor with weights 7 and an optimizer that would move every
  weight: after 3 epochs of 2 steps the extractor weights are still 7.
\<close>

theorem fit_frame_witness:
  "\<not> extractor_trainable demo_model \<and>
   (\<exists>callback' model'. fit demo_keras demo_model (\<lambda>n. n) 3 2 CollectBatchStats_init
        = Inr (callback', model') \<and> extractor_weights model' = 7)"
proof -
  have h: "\<not> extractor_trainable demo_model" by (simp add: demo_model_def)
  have e: "extractor_weights demo_model = 7" by (simp add: demo_model_def)
  from fit_frame [of demo_keras demo_model "\<lambda>n. n" 2 CollectBatchStats_init 3] h
  have "\<exists>callback' model'. fit demo_keras demo_model (\<lambda>n. n) 3 2 CollectBatchStats_init
        = Inr (callback', model') \<and> extractor_weights model' = extractor_weights demo_model"
    by blast
  with h e show ?thesis by simp
qed

subsection \<open>The image loaders\<close>

text \<open>
  Claim C5: for either loader of cell 7, batch \<open>k\<close> of a pass holds the samples from
  position \<open>32 * k\<close> of the pass on, at least 1 and at most 32 of them, and exactly 32
  unless it is the last batch of the pass; every image of the batch has shape
  224 x 224 x 3; every value of it is the 8-bit value of the decoded and resized image at
  the same position divided by 255, and lies in [0, 1]. The rescaling is exact
  arithmetic.
\<close>

theorem image_batches_shape_and_range:
  assumes args: "args = train_data_gen_args data_dir \<or> args = val_data_gen_args data_dir"
    and k: "k < length (flow_batches image_generator args (decode_resize decode resample) order)"
    and b: "flow_batches image_generator args (decode_resize decode resample) order ! k
              = (image_batch, label_batch)"
  shows "length image_batch = min 32 (length order - 32 * k) \<and>
         1 \<le> length image_batch \<and> length image_batch \<le> 32 \<and>
         (k + 1 < length (flow_batches image_generator args (decode_resize decode resample) order)
            \<longrightarrow> length image_batch = 32) \<and>
         (\<forall>img \<in> set image_batch. has_shape img 224 224 3 \<and>
            (\<forall>row \<in> set img. \<forall>px \<in> set row. \<forall>x \<in> set px. 0 \<le> x \<and> x \<le> 1)) \<and>
         (\<forall>n < length image_batch. \<forall>i < 224. \<forall>j < 224. \<forall>c < 3.
            image_batch ! n ! i ! j ! c
              = of_nat (unat (decode_resize decode resample (fst (order ! (32 * k + n))) (224, 224)
                                ! i ! j ! c)) / 255)"
proof -
  note a = notebook_args [OF args]
  let ?L = "decode_resize decode resample"
  let ?cs = "chunks 32 order"
  let ?c = "take 32 (drop (32 * k) order)"
  from k a have k': "k < length ?cs" by (simp add: flow_batches_def)
  then have ck: "?cs ! k = ?c" by (rule chunks_nth)
  from k' b a have ib: "image_batch = map (\<lambda>(f, i). standardize image_generator (?L f (224, 224))) ?c"
    by (simp add: flow_batches_def make_batch_def ck)
  from k' have "?cs ! k \<in> set ?cs" by simp
  from chunks_props [OF this] have c: "?c \<noteq> []" "length ?c \<le> 32" unfolding ck by simp_all
  have len: "length image_batch = length ?c" by (simp add: ib)
  then have len': "length image_batch = min 32 (length order - 32 * k)" by simp
  have imgs: "has_shape img 224 224 3 \<and>
            (\<forall>row \<in> set img. \<forall>px \<in> set row. \<forall>x \<in> set px. 0 \<le> x \<and> x \<le> 1)"
    if "img \<in> set image_batch" for img
  proof -
    from that ib obtain f where img: "img = standardize image_generator (?L f (224, 224))"
      by auto
    have "has_shape img 224 224 3" by (simp add: img standardize_shape decode_resize_shape)
    moreover have "\<forall>row \<in> set img. \<forall>px \<in> set row. \<forall>x \<in> set px. 0 \<le> x \<and> x \<le> 1"
      unfolding img using standardize_range by blast
    ultimately show ?thesis by blast
  qed
  have full: "length image_batch = 32"
    if "k + 1 < length (flow_batches image_generator args ?L order)"
  proof -
    from that a have "Suc k < length ?cs" by (simp add: flow_batches_def)
    from chunks_full [OF this] len ck show ?thesis by simp
  qed
  have vals: "image_batch ! n ! i ! j ! c
      = of_nat (unat (?L (fst (order ! (32 * k + n))) (224, 224) ! i ! j ! c)) / 255"
    if n: "n < length image_batch" and i: "i < 224" and j: "j < 224" and c: "c < 3" for n i j c
  proof -
    from n len have n': "n < length ?c" by simp
    then have "n < length order - 32 * k" by simp
    then have "32 * k \<le> length order" by linarith
    with n' have el: "?c ! n = order ! (32 * k + n)" by (simp add: nth_drop)
    from n' have "image_batch ! n = standardize image_generator (?L (fst (?c ! n)) (224, 224))"
      unfolding ib by (simp add: case_prod_unfold)
    then have "image_batch ! n = standardize image_generator (?L (fst (order ! (32 * k + n))) (224, 224))"
      by (simp only: el)
    moreover have "standardize image_generator (?L (fst (order ! (32 * k + n))) (224, 224)) ! i ! j ! c
        = of_nat (unat (?L (fst (order ! (32 * k + n))) (224, 224) ! i ! j ! c)) * rescale image_generator"
      using decode_resize_shape i j c by (rule standardize_nth)
    ultimately show ?thesis by (simp add: image_generator_def del: of_nat_unat)
  qed
  from c len have "1 \<le> length image_batch" "length image_batch \<le> 32"
    by (simp_all add: Suc_le_eq)
  with len' imgs full vals show ?thesis by blast
qed

text \<open>
  Claim C5 on the validation loader over the root with 180 files in each of two classes:
  36 files of each class are held out, and the pass has three batches, of 32, 32 and 8
  images. The last image of the first batch has shape 224 x 224 x 3, and its pixel in
  row 51 and column 102 is 51/255, 102/255 and 255/255.
\<close>

theorem image_batches_shape_and_range_witness:
  "map (\<lambda>b. length (fst b))
     (flow_batches image_generator (val_data_gen_args demo_dir)
        (decode_resize (\<lambda>f. f) demo_resample) demo_val_order) = [32, 32, 8] \<and>
   has_shape (fst (flow_batches image_generator (val_data_gen_args demo_dir)
        (decode_resize (\<lambda>f. f) demo_resample) demo_val_order ! 0) ! 31) 224 224 3 \<and>
   fst (flow_batches image_generator (val_data_gen_args demo_dir)
        (decode_resize (\<lambda>f. f) demo_resample) demo_val_order ! 0) ! 31 ! 51 ! 102 ! 0 = 1 / 5 \<and>
   fst (flow_batches image_generator (val_data_gen_args demo_dir)
        (decode_resize (\<lambda>f. f) demo_resample) demo_val_order ! 0) ! 31 ! 51 ! 102 ! 1 = 2 / 5 \<and>
   fst (flow_batches image_generator (val_data_gen_args demo_dir)
        (decode_resize (\<lambda>f. f) demo_resample) demo_val_order ! 0) ! 31 ! 51 ! 102 ! 2 = 1"
proof -
  let ?L = "decode_resize (\<lambda>f. f) demo_resample"
  let ?bs = "flow_batches image_generator (val_data_gen_args demo_dir) ?L demo_val_order"
  have bsz: "batch_size (val_data_gen_args demo_dir) = 32"
    by (simp add: val_data_gen_args_def BATCH_SIZE_def)
  have lens: "map (\<lambda>b. length (fst b)) ?bs = [32, 32, 8]"
    unfolding demo_val_order_chunks(2) [symmetric]
    by (simp add: flow_batches_def make_batch_def bsz comp_def)
  then have "length (map (\<lambda>b. length (fst b)) ?bs) = length [32 :: nat, 32, 8]" by (simp only:)
  then have len: "length ?bs = 3" by simp
  then have k: "0 < length ?bs" by simp
  have b: "?bs ! 0 = (fst (?bs ! 0), snd (?bs ! 0))" by simp
  note T = image_batches_shape_and_range [OF disjI2 [OF refl] k b]
  from T have n: "length (fst (?bs ! 0)) = 32" by (simp add: demo_val_order_chunks(1))
  then have "fst (?bs ! 0) ! 31 \<in> set (fst (?bs ! 0))" by simp
  with T have sh: "has_shape (fst (?bs ! 0) ! 31) 224 224 3" by blast
  from T have vals: "\<forall>n < length (fst (?bs ! 0)). \<forall>i < 224. \<forall>j < 224. \<forall>c < 3.
      fst (?bs ! 0) ! n ! i ! j ! c
        = of_nat (unat (?L (fst (demo_val_order ! (32 * 0 + n))) (224, 224) ! i ! j ! c)) / 255"
    by blast
  have v: "fst (?bs ! 0) ! 31 ! 51 ! 102 ! c
        = of_nat (unat ([51, 102, 255 :: 8 word] ! c)) / 255"
    if "c < 3" for c
  proof -
    from vals n that have "fst (?bs ! 0) ! 31 ! 51 ! 102 ! c
        = of_nat (unat (?L (fst (demo_val_order ! (32 * 0 + 31))) (224, 224) ! 51 ! 102 ! c)) / 255"
      by simp
    then show ?thesis by (simp only: demo_pixel [of 51 102, simplified])
  qed
  have "fst (?bs ! 0) ! 31 ! 51 ! 102 ! 0 = 1 / 5" using v [of 0] by simp
  moreover have "fst (?bs ! 0) ! 31 ! 51 ! 102 ! 1 = 2 / 5" using v [of 1] by simp
  moreover have "fst (?bs ! 0) ! 31 ! 51 ! 102 ! 2 = 1" using v [of 2] by simp
  ultimately show ?thesis using lens sh by blast
qed

text \<open>
  Claim C6: for either loader of cell 7, every label of every batch is as wide as the
  class list \<open>CLASS_NAMES\<close> found by the indexer and its arg-max is an index into that
  list; both loaders number the class names alike, because both get the same class list.
  The samples of a pass are any selection, in any order, of the samples under the root.
\<close>

theorem labels_one_hot_over_class_list:
  assumes args: "args = train_data_gen_args data_dir \<or> args = val_data_gen_args data_dir"
    and order: "set order \<subseteq> set (directory_samples args files_of)"
    and b: "(image_batch, label_batch) \<in> set (flow_batches image_generator args load_img order)"
    and l: "label \<in> set label_batch"
  shows "length label = length (CLASS_NAMES data_dir) \<and>
         (\<exists>i. argmax label = Inr i \<and> i < length (CLASS_NAMES data_dir)) \<and>
         class_indices (train_data_gen_args data_dir) = class_indices (val_data_gen_args data_dir)"
proof -
  note a = notebook_args [OF args]
  from b obtain chunk where chunk: "chunk \<in> set (chunks (batch_size args) order)"
    and lb: "label_batch = map (\<lambda>(f, i). one_hot (num_classes args) i) chunk"
    by (auto simp: flow_batches_def make_batch_def)
  from l lb obtain f i where fi: "(f, i) \<in> set chunk" and lab: "label = one_hot (num_classes args) i"
    by auto
  from chunks_props [OF chunk] fi order have "(f, i) \<in> set (directory_samples args files_of)"
    by blast
  then have "i < length (classes args)" by (rule directory_samples_index)
  with a have i: "i < length (CLASS_NAMES data_dir)" by simp
  have n: "num_classes args = length (CLASS_NAMES data_dir)" using a by (simp add: num_classes_def)
  have "length label = length (CLASS_NAMES data_dir)" by (simp add: lab n length_one_hot)
  moreover have "argmax label = Inr i" unfolding lab n using i by (rule argmax_one_hot)
  moreover have "class_indices (train_data_gen_args data_dir)
      = class_indices (val_data_gen_args data_dir)"
    by (simp add: class_indices_def train_data_gen_args_def val_data_gen_args_def)
  ultimately show ?thesis using i by blast
qed

text \<open>
  Claim C6 on the training loader over the root with two classes, in a shuffled order:
  the label \<open>[0, 1]\<close> of the first batch has width 2 and its arg-max is below 2.
\<close>

theorem labels_one_hot_over_class_list_witness:
  "[0, 1] \<in> set (snd (hd (flow_batches image_generator (train_data_gen_args demo_dir) demo_load_img
       (rev (directory_samples (train_data_gen_args demo_dir) demo_files_of))))) \<and>
   length [0, 1 :: rat] = length (CLASS_NAMES demo_dir) \<and>
   (\<exists>i. argmax [0, 1 :: rat] = Inr i \<and> i < length (CLASS_NAMES demo_dir))"
proof -
  let ?args = "train_data_gen_args demo_dir"
  let ?order = "rev (directory_samples ?args demo_files_of)"
  let ?bs = "flow_batches image_generator ?args demo_load_img ?order"
  have bsz: "batch_size ?args = 32"
    by (simp add: train_data_gen_args_def BATCH_SIZE_def)
  have nc: "num_classes ?args = 2"
    by (simp add: num_classes_def train_data_gen_args_def CLASS_NAMES_def demo_dir_def)
  have cs: "chunks 32 [(''s1.tif'', 1::nat), (''t2.tif'', 0), (''t1.tif'', 0)]
      = [[(''s1.tif'', 1), (''t2.tif'', 0), (''t1.tif'', 0)]]"
    by (rule chunks_short) simp_all
  have oh: "one_hot 2 (Suc 0) = [0, 1]" by code_simp
  have ord: "?order = [(''s1.tif'', 1), (''t2.tif'', 0), (''t1.tif'', 0)]"
    unfolding demo_samples by simp
  have bs: "?bs = [make_batch image_generator ?args demo_load_img
                    [(''s1.tif'', 1), (''t2.tif'', 0), (''t1.tif'', 0)]]"
    unfolding flow_batches_def ord bsz cs by (simp only: list.map)
  have order: "set ?order \<subseteq> set (directory_samples ?args demo_files_of)" by simp
  have b: "(fst (hd ?bs), snd (hd ?bs)) \<in> set ?bs" unfolding bs by simp
  have l: "[0, 1] \<in> set (snd (hd ?bs))"
    unfolding bs by (simp add: make_batch_def nc oh)
  from labels_one_hot_over_class_list [OF disjI1 [OF refl] order b l]
  have "length [0, 1 :: rat] = length (CLASS_NAMES demo_dir) \<and>
        (\<exists>i. argmax [0, 1 :: rat] = Inr i \<and> i < length (CLASS_NAMES demo_dir))" by blast
  with l show ?thesis by blast
qed

end
